theory Spec2Isabelle
  imports Main "HOL-Library.Code_Target_Nat"
begin

section \<open>Errors\<close>

text \<open>
  The repository reports every synchronous validation failure by throwing a
  \<^verbatim>\<open>reapack_error\<close> that carries a message (\<^verbatim>\<open>e.what()\<close>). An operation
  that can throw returns \<open>error + 'a\<close>, with \<open>Inl\<close> for the thrown error. A
  dereference of a null pointer is a branch of its own.
\<close>

datatype error = ReapackError string | NullDereference

section \<open>Version names\<close>

text \<open>
  Modelled from the spec: the constructor of \<^verbatim>\<open>Version\<close> (version.cpp) is not
  among the sources; only its test suite is. The model follows the spec's data
  model and contract and is pinned by the test cases: the numeric components
  of a version string are its maximal runs of decimal digits, in order (dots
  and the letters of a suffix separate them, so that \<^verbatim>\<open>1.2pre3\<close> has the
  components 1, 2, 3); a string with no component or with more than four is
  rejected with \<^verbatim>\<open>invalid version name\<close>; a component of 10000 or more is
  rejected with \<^verbatim>\<open>version component overflow\<close>; the code packs component
  \<open>i\<close> (from 0) at the decimal offset \<open>4 * (3 - i)\<close>. The code has 64 bits in
  the spec and is a natural number here: \<open>code_fits_64_bits\<close> below shows that
  the code of a version never reaches \<open>2 ^ 64\<close>, so that nothing wraps. A
  version owns the sources added to it later; \<open>files\<close> are the target paths of
  these sources, none at construction.
\<close>

definition is_digit :: "char \<Rightarrow> bool" where
  "is_digit c = (c \<in> set ''0123456789'')"

definition digit_value :: "char \<Rightarrow> nat" where
  "digit_value c = of_char c - 48"

fun digit_runs :: "string \<Rightarrow> string \<Rightarrow> string list" where
  "digit_runs cur [] = (if cur = [] then [] else [cur])"
| "digit_runs cur (c # cs) =
     (if is_digit c then digit_runs (cur @ [c]) cs
      else (if cur = [] then [] else [cur]) @ digit_runs [] cs)"

definition stoi :: "string \<Rightarrow> nat" where
  "stoi s = fold (\<lambda>c n. 10 * n + digit_value c) s 0"

text \<open>The spelling of a version with the numerals \<open>ds\<close> as its dot-separated
  components.\<close>

fun dotted :: "string list \<Rightarrow> string" where
  "dotted [] = []"
| "dotted [d] = d"
| "dotted (d # e # ds) = d @ CHR ''.'' # dotted (e # ds)"

definition components :: "string \<Rightarrow> nat list" where
  "components str = map stoi (digit_runs [] str)"

fun pack :: "nat \<Rightarrow> nat list \<Rightarrow> nat" where
  "pack k [] = 0"
| "pack k (c # cs) = c * 10000 ^ k + pack (k - 1) cs"

type_synonym Path = "string list"

record Version =
  name :: string
  code :: nat
  files :: "Path list"

definition Version_new :: "string \<Rightarrow> error + Version" where
  "Version_new str =
     (let comps = components str in
      if comps = [] \<or> 4 < length comps then Inl (ReapackError ''invalid version name'')
      else if list_ex (\<lambda>c. 10000 \<le> c) comps
        then Inl (ReapackError ''version component overflow'')
      else Inr \<lparr>name = str, code = pack 3 comps, files = []\<rparr>)"

definition version_eq :: "Version \<Rightarrow> Version \<Rightarrow> bool" where
  "version_eq a b = (code a = code b)"

definition version_less :: "Version \<Rightarrow> Version \<Rightarrow> bool" where
  "version_less a b = (code a < code b)"

text \<open>Comparing two version strings as the tests do: both are constructed
  first, and a failed construction leaves nothing to compare.\<close>

definition compare_names ::
  "(Version \<Rightarrow> Version \<Rightarrow> bool) \<Rightarrow> string \<Rightarrow> string \<Rightarrow> bool option" where
  "compare_names rel s t =
     (case (Version_new s, Version_new t) of
        (Inr a, Inr b) \<Rightarrow> Some (rel a b)
      | _ \<Rightarrow> None)"

definition code_of :: "string \<Rightarrow> nat option" where
  "code_of s = (case Version_new s of Inr v \<Rightarrow> Some (code v) | Inl _ \<Rightarrow> None)"

section \<open>The index of a repository\<close>

text \<open>
  The tree of index.cpp. A child keeps a back-reference to its parent, which
  the model stores as the parent's name: \<open>pkg_category\<close> and \<open>pkg_index\<close> are
  what \<^verbatim>\<open>pkg->category()->name()\<close> and \<^verbatim>\<open>pkg->category()->index()->name()\<close>
  read. The package types are the ones the spec names.
\<close>

datatype PackageType = UnknownType | ScriptType | EffectType | ExtensionType

record Package =
  pkg_type :: PackageType
  pkg_name :: string
  pkg_category :: string
  pkg_index :: string
  versions :: "Version list"

record Category =
  cat_name :: string
  packages :: "Package list"

record Index =
  idx_name :: string
  categories :: "Category list"

definition Index_new :: "string \<Rightarrow> Index" where
  "Index_new n = \<lparr>idx_name = n, categories = []\<rparr>"

text \<open>\<^verbatim>\<open>Index::packages()\<close>: \<^verbatim>\<open>addCategory\<close> appends the packages of each category
  it keeps.\<close>

definition Index_packages :: "Index \<Rightarrow> Package list" where
  "Index_packages ri = concat (map packages (categories ri))"

text \<open>\<^verbatim>\<open>Index::category(name)\<close> and \<^verbatim>\<open>Category::package(name)\<close> look the name up
  in a \<^verbatim>\<open>std::map\<close> from names to positions that is filled with \<^verbatim>\<open>insert\<close>,
  which keeps the first position stored under a name.\<close>

definition Index_category :: "Index \<Rightarrow> string \<Rightarrow> Category option" where
  "Index_category ri n = List.find (\<lambda>c. cat_name c = n) (categories ri)"

definition Category_package :: "Category \<Rightarrow> string \<Rightarrow> Package option" where
  "Category_package cat n = List.find (\<lambda>p. pkg_name p = n) (packages cat)"

definition Index_find :: "Index \<Rightarrow> string \<Rightarrow> string \<Rightarrow> Package option" where
  "Index_find ri catName pkgName =
     (case Index_category ri catName of
        Some cat \<Rightarrow> Category_package cat pkgName
      | None \<Rightarrow> None)"

subsection \<open>Loading an index\<close>

text \<open>
  The document that \<^verbatim>\<open>Index::load\<close> reads, as TinyXML hands it over: either
  the file cannot be opened (\<open>Unreadable\<close>, with \<^verbatim>\<open>FS::lastError()\<close>), or it was
  parsed to a document with an error id, an error description and a root
  element, which is absent when the document holds no element.
\<close>

datatype TiXmlElement =
  Element (Value: string) (attributes: "(string \<times> string) list") (children: "TiXmlElement list")

datatype TiXmlDocument =
  Unreadable string
  | Document (ErrorId: int) (ErrorDesc: string) (RootElement: "TiXmlElement option")

text \<open>
  \<^verbatim>\<open>TiXmlElement::Attribute(name, int *)\<close> stores \<^verbatim>\<open>atoi\<close> of the attribute's
  value in an \<^verbatim>\<open>int\<close>, and 0 when the element has no such attribute. \<open>atoi\<close>
  skips white space, reads an optional sign and the decimal digits that
  follow, and yields 0 when there is none. An \<^verbatim>\<open>int\<close> has 32 bits. C leaves the
  conversion of a numeral whose value is outside the range of \<^verbatim>\<open>int\<close>
  undefined: the model fixes nothing there and yields what the parameter
  \<open>overflowed\<close>, the C library at hand, gives for the string.
\<close>

definition isspace :: "char \<Rightarrow> bool" where
  "isspace c = (c \<in> set [CHR '' '', CHR 0x09, CHR 0x0A, CHR 0x0B, CHR 0x0C, CHR 0x0D])"

definition INT_MIN :: int where
  "INT_MIN = - (2 ^ 31)"

definition INT_MAX :: int where
  "INT_MAX = 2 ^ 31 - 1"

definition numeral_value :: "string \<Rightarrow> int" where
  "numeral_value s =
     (case dropWhile isspace s of
        [] \<Rightarrow> 0
      | c # cs \<Rightarrow>
          if c = CHR ''-'' then - int (stoi (takeWhile is_digit cs))
          else if c = CHR ''+'' then int (stoi (takeWhile is_digit cs))
          else int (stoi (takeWhile is_digit (c # cs))))"

definition atoi :: "(string \<Rightarrow> int) \<Rightarrow> string \<Rightarrow> int" where
  "atoi overflowed s =
     (if INT_MIN \<le> numeral_value s \<and> numeral_value s \<le> INT_MAX then numeral_value s
      else overflowed s)"

definition Attribute_int :: "(string \<Rightarrow> int) \<Rightarrow> TiXmlElement \<Rightarrow> string \<Rightarrow> int" where
  "Attribute_int overflowed el n =
     (case map_of (attributes el) n of None \<Rightarrow> 0 | Some s \<Rightarrow> atoi overflowed s)"

text \<open>
  \<^verbatim>\<open>Index::load\<close>. The loader of version 1 (\<^verbatim>\<open>loadV1\<close>, index_v1.cpp) is not
  among the sources and is a parameter: it fills the new index from the root
  element or throws.
\<close>

definition Index_load ::
  "(string \<Rightarrow> int) \<Rightarrow> (TiXmlElement \<Rightarrow> Index \<Rightarrow> error + Index) \<Rightarrow> string \<Rightarrow> TiXmlDocument
    \<Rightarrow> error + Index" where
  "Index_load overflowed loadV1 nm doc =
     (case doc of
        Unreadable lastError \<Rightarrow> Inl (ReapackError lastError)
      | Document errorId errorDesc rootElement \<Rightarrow>
          if errorId \<noteq> 0 then Inl (ReapackError errorDesc)
          else (case rootElement of
              None \<Rightarrow> Inl NullDereference
            | Some root \<Rightarrow>
                if Value root \<noteq> ''index'' then Inl (ReapackError ''invalid index'')
                else
                  let version = Attribute_int overflowed root ''version'' in
                  if version = 0 then Inl (ReapackError ''index version not found'')
                  else if version = 1 then loadV1 root (Index_new nm)
                  else Inl (ReapackError ''index version is unsupported'')))"

section \<open>The registry\<close>

text \<open>
  An entry of the registry records an installed package: remote, category and
  package name, the installed version and the pinned flag. Of the version
  only the name and the code matter here. A file of the registry records a
  target path, the type of its package and the sections of the host it is
  registered in (a bit mask in the source; the model keeps the sections whose
  bit is set).
\<close>

record Entry =
  remote :: string
  category :: string
  package :: string
  version :: Version
  pinned :: bool

datatype Section = MainSection | MIDIEditorSection | MIDIInlineEditorSection

record File =
  path :: Path
  file_type :: PackageType
  sections :: "Section list"

text \<open>
  Modelled from the spec: the registry (registry.cpp) is not among the
  sources. It is a store with nested checkpoints: \<open>savepoint\<close> opens a
  checkpoint, \<open>restore\<close> undoes the changes since the most recent open
  checkpoint, \<open>commit\<close> makes all changes durable. \<open>current\<close> is what readers
  and writers of the transaction see, \<open>committed\<close> what is durable.
\<close>

record Registry =
  committed :: "Entry list"
  current :: "Entry list"
  checkpoints :: "Entry list list"

definition Registry_savepoint :: "Registry \<Rightarrow> Registry" where
  "Registry_savepoint r = r\<lparr>checkpoints := current r # checkpoints r\<rparr>"

definition Registry_restore :: "Registry \<Rightarrow> Registry" where
  "Registry_restore r =
     (case checkpoints r of
        [] \<Rightarrow> r
      | c # cs \<Rightarrow> r\<lparr>current := c, checkpoints := cs\<rparr>)"

definition Registry_commit :: "Registry \<Rightarrow> Registry" where
  "Registry_commit r = r\<lparr>committed := current r, checkpoints := []\<rparr>"

definition Registry_getEntry :: "Registry \<Rightarrow> Package \<Rightarrow> Entry option" where
  "Registry_getEntry r pkg =
     List.find (\<lambda>e. remote e = pkg_index pkg \<and> category e = pkg_category pkg
                    \<and> package e = pkg_name pkg) (current r)"

definition Registry_getEntries :: "Registry \<Rightarrow> string \<Rightarrow> Entry list" where
  "Registry_getEntries r n = filter (\<lambda>e. remote e = n) (current r)"

text \<open>\<^verbatim>\<open>getEntry\<close> returns an entry that converts to \<^verbatim>\<open>false\<close> when the package
  is not installed; its fields are those of a value-initialised entry: a
  version with no component and the pinned flag unset.\<close>

definition entry_version :: "Entry option \<Rightarrow> Version" where
  "entry_version e =
     (case e of Some x \<Rightarrow> version x | None \<Rightarrow> \<lparr>name = [], code = 0, files = []\<rparr>)"

definition entry_pinned :: "Entry option \<Rightarrow> bool" where
  "entry_pinned e = (case e of Some x \<Rightarrow> pinned x | None \<Rightarrow> False)"

section \<open>The transaction\<close>

record Remote =
  remote_name :: string
  url :: string
  isEnabled :: bool
  isProtected :: bool
  remote_autoInstall :: "bool option"

record InstallOpts =
  autoInstall :: bool
  bleedingEdge :: bool
  promptObsolete :: bool

text \<open>
  The tasks a transaction queues. An install task carries the version, the
  pin request, the entry found in the registry when it was queued and whether
  it reads from an archive.
\<close>

datatype Task =
  InstallTask Version bool "Entry option" bool
  | UninstallTask Entry
  | PinTask Entry bool

record HostTicket =
  add :: bool
  entry :: Entry
  reg_file :: File

text \<open>The callback \<^verbatim>\<open>synchronize\<close> hands to \<^verbatim>\<open>fetchIndex\<close>: a closure over the
  install options and the remote.\<close>

datatype Callback = SyncCallback InstallOpts Remote

text \<open>
  What runs in the thread pool: the download of an index that \<^verbatim>\<open>fetchIndex\<close>
  pushes (with the remote and the callback its \<^verbatim>\<open>onFinish\<close> closure holds), and
  the downloads and extractions that a task pushes when it starts.
\<close>

datatype ThreadTask =
  IndexDownload Remote "Callback option"
  | TaskJob Path

datatype ThreadState = Running | Success | Failure | Aborted

text \<open>What happens between the transaction and its collaborators, in order:
  calls of the registry; a task pushed to the pool and a task of the pool that
  has finished; \<^verbatim>\<open>start\<close> of a task with its result, \<^verbatim>\<open>commit\<close> and \<^verbatim>\<open>rollback\<close>;
  calls of the host; the handlers of the owner.\<close>

datatype Event =
  RegSavepoint | RegRestore | RegCommit
  | PoolPush ThreadTask | ThreadDone ThreadTask ThreadState
  | TaskStart Task bool | TaskCommit Task | TaskRollback Task
  | HostCall bool int Path bool
  | OnFinish | CleanupHandler

text \<open>
  The code that the transaction calls and that is not among the sources, and
  the world it observes, are parameters: the cache directory, the clock, the
  file system and the message of its last error (\<^verbatim>\<open>FS::lastError()\<close>); the
  cached index documents, the loader of version 1 and what the C library
  makes of a numeral outside the range of \<^verbatim>\<open>int\<close>;
  \<^verbatim>\<open>Package::lastVersion\<close>; the obsolete-package handler of the owner (it may
  edit the selection); what a task does on \<^verbatim>\<open>start\<close> (its result, the registry
  after its conflict checks and the jobs it pushes to the pool), on \<^verbatim>\<open>commit\<close>
  (the registry after it and the files it queues for the host) and on
  \<^verbatim>\<open>rollback\<close>; and the host function \<^verbatim>\<open>AddRemoveReaScript\<close>, a null pointer in
  an old host.
\<close>

record Env =
  CACHE :: Path
  now :: int
  fs_mtime :: "Path \<Rightarrow> int option"
  fs_exists :: "Path \<Rightarrow> bool"
  FS_lastError :: string
  document :: "string \<Rightarrow> TiXmlDocument"
  loadV1 :: "TiXmlElement \<Rightarrow> Index \<Rightarrow> error + Index"
  overflowed :: "string \<Rightarrow> int"
  lastVersion :: "Package \<Rightarrow> bool \<Rightarrow> Version \<Rightarrow> Version option"
  obsoleteHandler :: "Entry list \<Rightarrow> bool \<times> Entry list"
  task_start :: "Task \<Rightarrow> Entry list \<Rightarrow> bool \<times> Entry list \<times> ThreadTask list"
  task_commit :: "Task \<Rightarrow> Entry list \<Rightarrow> Entry list \<times> HostTicket list"
  task_rollback :: "Task \<Rightarrow> Entry list \<Rightarrow> Entry list"
  AddRemoveReaScript :: "(bool \<Rightarrow> int \<Rightarrow> Path \<Rightarrow> bool \<Rightarrow> int) option"

text \<open>
  The members of \<^verbatim>\<open>Transaction\<close>. A task queue is a priority queue whose order
  (\<^verbatim>\<open>CompareTask\<close>) is not among the sources: the model keeps a queue as the
  list of its tasks in the order \<^verbatim>\<open>top()\<close> yields them, and queues a task at
  its end. \<open>m_config\<close> is \<^verbatim>\<open>m_config->install\<close>; \<open>m_threadPool\<close> holds the tasks
  of the pool that have not finished; \<open>trace\<close> is the log of events.
\<close>

record Transaction =
  m_isCancelled :: bool
  m_config :: InstallOpts
  m_registry :: Registry
  m_receipt :: "(string \<times> string) list"
  m_syncedRemotes :: "string list"
  m_indexes :: "(string \<times> Index) list"
  m_obsolete :: "Entry list"
  m_inhibited :: "string list"
  m_nextQueue :: "Task list"
  m_taskQueues :: "Task list list"
  m_runningTasks :: "Task list"
  m_regQueue :: "HostTicket list"
  m_threadPool :: "ThreadTask list"
  trace :: "Event list"

text \<open>\<^verbatim>\<open>Path::join\<close>: the segments, separated.\<close>

fun join :: "Path \<Rightarrow> string" where
  "join [] = []"
| "join [s] = s"
| "join (s # t # ts) = s @ CHR ''/'' # join (t # ts)"

definition STALE_THRESHOLD :: int where
  "STALE_THRESHOLD = 7 * 24 * 3600"

definition addError :: "string \<times> string \<Rightarrow> Transaction \<Rightarrow> Transaction" where
  "addError e tx = tx\<lparr>m_receipt := m_receipt tx @ [e]\<rparr>"

definition log_event :: "Event \<Rightarrow> Transaction \<Rightarrow> Transaction" where
  "log_event e tx = tx\<lparr>trace := trace tx @ [e]\<rparr>"

definition registry_savepoint :: "Transaction \<Rightarrow> Transaction" where
  "registry_savepoint tx =
     log_event RegSavepoint (tx\<lparr>m_registry := Registry_savepoint (m_registry tx)\<rparr>)"

definition registry_restore :: "Transaction \<Rightarrow> Transaction" where
  "registry_restore tx =
     log_event RegRestore (tx\<lparr>m_registry := Registry_restore (m_registry tx)\<rparr>)"

definition registry_commit :: "Transaction \<Rightarrow> Transaction" where
  "registry_commit tx =
     log_event RegCommit (tx\<lparr>m_registry := Registry_commit (m_registry tx)\<rparr>)"

text \<open>The constructor: it opens the registry, whose content is \<open>installed\<close>, and
  sets a savepoint at once.\<close>

definition Transaction_new :: "InstallOpts \<Rightarrow> Entry list \<Rightarrow> Transaction" where
  "Transaction_new config installed =
     registry_savepoint
       \<lparr>m_isCancelled = False, m_config = config,
        m_registry = \<lparr>committed = installed, current = installed, checkpoints = []\<rparr>,
        m_receipt = [], m_syncedRemotes = [], m_indexes = [], m_obsolete = [],
        m_inhibited = [], m_nextQueue = [], m_taskQueues = [], m_runningTasks = [],
        m_regQueue = [], m_threadPool = [], trace = []\<rparr>"

text \<open>The handler the constructor gives to \<^verbatim>\<open>m_threadPool.onAbort\<close>.\<close>

definition onAbort :: "Transaction \<Rightarrow> Transaction" where
  "onAbort tx = tx\<lparr>m_isCancelled := True, m_regQueue := []\<rparr>"

definition ThreadPool_idle :: "Transaction \<Rightarrow> bool" where
  "ThreadPool_idle tx = (m_threadPool tx = [])"

definition ThreadPool_push :: "Transaction \<Rightarrow> ThreadTask \<Rightarrow> Transaction" where
  "ThreadPool_push tx t = log_event (PoolPush t) (tx\<lparr>m_threadPool := m_threadPool tx @ [t]\<rparr>)"

subsection \<open>Resolution of one package\<close>

fun allFilesExists :: "Env \<Rightarrow> Path list \<Rightarrow> bool" where
  "allFilesExists w [] = True"
| "allFilesExists w (p # ps) = (if \<not> fs_exists w p then False else allFilesExists w ps)"

definition push_task :: "Task \<Rightarrow> Transaction \<Rightarrow> Transaction" where
  "push_task t tx = tx\<lparr>m_nextQueue := m_nextQueue tx @ [t]\<rparr>"

text \<open>\<^verbatim>\<open>Transaction::synchronize(const Package *, const InstallOpts &)\<close>. The
  comparisons of the installed version with the name of the latest one are
  those of versions, by code.\<close>

definition synchronize_package :: "Env \<Rightarrow> InstallOpts \<Rightarrow> Transaction \<Rightarrow> Package \<Rightarrow> Transaction" where
  "synchronize_package w opts tx pkg =
     (let regEntry = Registry_getEntry (m_registry tx) pkg in
      if regEntry = None \<and> \<not> autoInstall opts then tx
      else
        (case lastVersion w pkg (bleedingEdge opts) (entry_version regEntry) of
           None \<Rightarrow> tx
         | Some latest \<Rightarrow>
             if version_eq (entry_version regEntry) latest then
               (if allFilesExists w (files latest) then tx
                else push_task (InstallTask latest False regEntry False) tx)
             else if entry_pinned regEntry \<or> version_less latest (entry_version regEntry)
               then tx
             else push_task (InstallTask latest False regEntry False) tx))"

subsection \<open>Fetching and loading an index\<close>

definition pathFor :: "Env \<Rightarrow> string \<Rightarrow> Path" where
  "pathFor w n = CACHE w @ [n @ ''.xml'']"

text \<open>\<^verbatim>\<open>Transaction::loadIndex\<close>. It catches \<^verbatim>\<open>reapack_error\<close> only; any other
  failure escapes, and is the first component of the result.\<close>

definition loadIndex :: "Env \<Rightarrow> Remote \<Rightarrow> Transaction \<Rightarrow> error option \<times> Index option \<times> Transaction" where
  "loadIndex w r tx =
     (case map_of (m_indexes tx) (remote_name r) of
        Some ri \<Rightarrow> (None, Some ri, tx)
      | None \<Rightarrow>
          (case Index_load (overflowed w) (loadV1 w) (remote_name r) (document w (remote_name r)) of
             Inr ri \<Rightarrow> (None, Some ri, tx\<lparr>m_indexes := m_indexes tx @ [(remote_name r, ri)]\<rparr>)
           | Inl (ReapackError what) \<Rightarrow>
               (None, None,
                addError (''Couldn't load repository: '' @ what, remote_name r) tx)
           | Inl NullDereference \<Rightarrow> (Some NullDereference, None, tx)))"

text \<open>The callback of \<^verbatim>\<open>synchronize\<close>: every package of the index is resolved,
  then the installed entries that the index no longer has are collected.\<close>

definition collect_obsolete :: "Index \<Rightarrow> Transaction \<Rightarrow> Entry \<Rightarrow> Transaction" where
  "collect_obsolete ri tx e =
     (if Index_find ri (category e) (package e) = None
      then tx\<lparr>m_obsolete := List.insert e (m_obsolete tx)\<rparr>
      else tx)"

fun run_callback :: "Env \<Rightarrow> Callback \<Rightarrow> Index \<Rightarrow> Transaction \<Rightarrow> Transaction" where
  "run_callback w (SyncCallback opts r) ri tx =
     (let tx1 = foldl (synchronize_package w opts) tx (Index_packages ri) in
      if promptObsolete (m_config tx1) \<and> \<not> isProtected r
      then foldl (collect_obsolete ri) tx1 (Registry_getEntries (m_registry tx1) (idx_name ri))
      else tx1)"

text \<open>The closure \<^verbatim>\<open>load\<close> of \<^verbatim>\<open>fetchIndex\<close>.\<close>

definition load_index :: "Env \<Rightarrow> Remote \<Rightarrow> Callback option \<Rightarrow> Transaction \<Rightarrow> error option \<times> Transaction" where
  "load_index w r cb tx =
     (case loadIndex w r tx of
        (Some e, _, tx1) \<Rightarrow> (Some e, tx1)
      | (None, ri, tx1) \<Rightarrow>
          (case (cb, ri) of
             (Some c, Some i) \<Rightarrow> (None, run_callback w c i tx1)
           | _ \<Rightarrow> (None, tx1)))"

text \<open>\<^verbatim>\<open>FS::mtime(path, &mtime)\<close> on a variable preset to 0: the time stays 0 when
  the file cannot be examined.\<close>

definition FS_mtime :: "Env \<Rightarrow> Path \<Rightarrow> int" where
  "FS_mtime w p = (case fs_mtime w p of None \<Rightarrow> 0 | Some t \<Rightarrow> t)"

definition fetchIndex :: "Env \<Rightarrow> Remote \<Rightarrow> bool \<Rightarrow> Callback option \<Rightarrow> Transaction \<Rightarrow> error option \<times> Transaction" where
  "fetchIndex w r stale cb tx =
     (let path = pathFor w (remote_name r);
          mtime = FS_mtime w path
      in if \<not> stale \<and> mtime > now w - STALE_THRESHOLD then load_index w r cb tx
         else (None, ThreadPool_push tx (IndexDownload r cb)))"

text \<open>\<^verbatim>\<open>Transaction::synchronize(const Remote &, boost::optional<bool>)\<close>;
  \<open>sync_opts\<close> are the install options it hands to the resolution: those of
  the configuration, with the automatic installation as forced by the caller
  or, failing that, as set for the remote.\<close>

definition sync_opts :: "InstallOpts \<Rightarrow> Remote \<Rightarrow> bool option \<Rightarrow> InstallOpts" where
  "sync_opts opts r forceAutoInstall =
     (case forceAutoInstall of
        Some b \<Rightarrow> opts\<lparr>autoInstall := b\<rparr>
      | None \<Rightarrow>
          (case remote_autoInstall r of
             Some b \<Rightarrow> opts\<lparr>autoInstall := b\<rparr>
           | None \<Rightarrow> opts))"

definition synchronize :: "Env \<Rightarrow> Remote \<Rightarrow> bool option \<Rightarrow> Transaction \<Rightarrow> error option \<times> Transaction" where
  "synchronize w r forceAutoInstall tx =
     (if remote_name r \<in> set (m_syncedRemotes tx) then (None, tx)
      else
        let tx1 = tx\<lparr>m_syncedRemotes := List.insert (remote_name r) (m_syncedRemotes tx)\<rparr>;
            opts = sync_opts (m_config tx1) r forceAutoInstall
        in fetchIndex w r True (Some (SyncCallback opts r)) tx1)"

subsection \<open>Queueing tasks directly\<close>

text \<open>\<^verbatim>\<open>install\<close> reads the package of the version through its back-reference;
  the model takes the package as an argument.\<close>

definition install :: "Package \<Rightarrow> Version \<Rightarrow> bool \<Rightarrow> bool \<Rightarrow> Transaction \<Rightarrow> Transaction" where
  "install pkg ver pin reader tx =
     push_task (InstallTask ver pin (Registry_getEntry (m_registry tx) pkg) reader) tx"

definition setPinned :: "Entry \<Rightarrow> bool \<Rightarrow> Transaction \<Rightarrow> Transaction" where
  "setPinned e p tx = push_task (PinTask e p) tx"

definition uninstall :: "Entry \<Rightarrow> Transaction \<Rightarrow> Transaction" where
  "uninstall e tx = push_task (UninstallTask e) tx"

definition registerFile :: "HostTicket \<Rightarrow> Transaction \<Rightarrow> Transaction" where
  "registerFile t tx = tx\<lparr>m_regQueue := m_regQueue tx @ [t]\<rparr>"

definition inhibit :: "Remote \<Rightarrow> Transaction \<Rightarrow> Transaction" where
  "inhibit r tx =
     tx\<lparr>m_syncedRemotes := removeAll (remote_name r) (m_syncedRemotes tx),
        m_inhibited := List.insert (remote_name r) (m_inhibited tx)\<rparr>"

subsection \<open>Running the tasks\<close>

definition Task_start :: "Env \<Rightarrow> Transaction \<Rightarrow> Task \<Rightarrow> bool \<times> Transaction" where
  "Task_start w tx t =
     (case task_start w t (current (m_registry tx)) of
        (ok, reg, jobs) \<Rightarrow>
          (ok, log_event (TaskStart t ok)
                 (foldl ThreadPool_push
                    (tx\<lparr>m_registry := (m_registry tx)\<lparr>current := reg\<rparr>\<rparr>) jobs)))"

definition Task_commit :: "Env \<Rightarrow> Transaction \<Rightarrow> Task \<Rightarrow> Transaction" where
  "Task_commit w tx t =
     (case task_commit w t (current (m_registry tx)) of
        (reg, tickets) \<Rightarrow>
          log_event (TaskCommit t)
            (tx\<lparr>m_registry := (m_registry tx)\<lparr>current := reg\<rparr>,
               m_regQueue := m_regQueue tx @ tickets\<rparr>))"

definition Task_rollback :: "Env \<Rightarrow> Transaction \<Rightarrow> Task \<Rightarrow> Transaction" where
  "Task_rollback w tx t =
     log_event (TaskRollback t)
       (tx\<lparr>m_registry := (m_registry tx)\<lparr>current := task_rollback w t (current (m_registry tx))\<rparr>\<rparr>)"

text \<open>The body of the loop of \<^verbatim>\<open>commitTasks\<close> on the front of the running
  tasks, and \<^verbatim>\<open>commitTasks\<close>.\<close>

definition settle_task :: "Env \<Rightarrow> Transaction \<Rightarrow> Task \<Rightarrow> Transaction" where
  "settle_task w tx t =
     (if m_isCancelled tx then Task_rollback w tx t else Task_commit w tx t)"

definition commitTasks :: "Env \<Rightarrow> Transaction \<Rightarrow> bool \<times> Transaction" where
  "commitTasks w tx =
     (if \<not> ThreadPool_idle tx then (False, tx)
      else (True, (foldl (settle_task w) tx (m_runningTasks tx))\<lparr>m_runningTasks := []\<rparr>))"

definition finish :: "Transaction \<Rightarrow> Transaction" where
  "finish tx = log_event CleanupHandler (log_event OnFinish tx)"

text \<open>\<^verbatim>\<open>registerScript\<close>: the sections of the file, in the order of the section
  map, are registered one by one; the first failure of an addition is
  reported.\<close>

definition sectionMap :: "(Section \<times> int) list" where
  "sectionMap =
     [(MainSection, 0), (MIDIEditorSection, 32060), (MIDIInlineEditorSection, 32062)]"

fun registerSections ::
  "(bool \<Rightarrow> int \<Rightarrow> Path \<Rightarrow> bool \<Rightarrow> int) \<Rightarrow> HostTicket \<Rightarrow> bool \<Rightarrow> bool \<Rightarrow> int list
    \<Rightarrow> Transaction \<Rightarrow> Transaction" where
  "registerSections f reg isLastCall enableError [] tx = tx"
| "registerSections f reg isLastCall enableError (s # ss) tx =
     (let isLastSection = (ss = []);
          commit = (isLastCall \<and> isLastSection);
          ident = f (add reg) s (path (reg_file reg)) commit;
          tx1 = log_event (HostCall (add reg) s (path (reg_file reg)) commit) tx
      in if ident = 0 \<and> enableError
         then registerSections f reg isLastCall False ss
                (addError (''This script could not be registered in REAPER.'',
                    join (path (reg_file reg))) tx1)
         else registerSections f reg isLastCall enableError ss tx1)"

definition registerScript :: "Env \<Rightarrow> HostTicket \<Rightarrow> bool \<Rightarrow> Transaction \<Rightarrow> Transaction" where
  "registerScript w reg isLastCall tx =
     (case AddRemoveReaScript w of
        None \<Rightarrow> tx
      | Some f \<Rightarrow>
          if sections (reg_file reg) = [] then tx
          else registerSections f reg isLastCall (add reg)
                 (map snd (filter (\<lambda>p. fst p \<in> set (sections (reg_file reg))) sectionMap)) tx)"

fun registerQueued :: "Env \<Rightarrow> HostTicket list \<Rightarrow> Transaction \<Rightarrow> Transaction" where
  "registerQueued w [] tx = tx\<lparr>m_regQueue := []\<rparr>"
| "registerQueued w (reg # rest) tx =
     (if add reg \<and> remote (entry reg) \<in> set (m_inhibited tx) then tx\<lparr>m_regQueue := rest\<rparr>
      else
        registerQueued w rest
          (case file_type (reg_file reg) of
             ScriptType \<Rightarrow> registerScript w reg (rest = []) tx
           | _ \<Rightarrow> tx))"

definition promptObsolete_step :: "Env \<Rightarrow> Transaction \<Rightarrow> Transaction" where
  "promptObsolete_step w tx =
     (if \<not> promptObsolete (m_config tx) \<or> m_obsolete tx = [] then tx
      else
        let tx1 = tx\<lparr>m_obsolete := []\<rparr> in
        (case obsoleteHandler w (m_obsolete tx) of
           (ok, selected) \<Rightarrow>
             if \<not> ok \<or> selected = [] then tx1
             else
               let qs = (if m_taskQueues tx1 = [] then [[]] else m_taskQueues tx1)
               in tx1\<lparr>m_taskQueues := butlast qs @ [last qs @ map UninstallTask selected]\<rparr>))"

text \<open>One task of a queue is started; it joins the running tasks when
  \<^verbatim>\<open>start\<close> succeeds.\<close>

definition start_task :: "Env \<Rightarrow> Transaction \<Rightarrow> Task \<Rightarrow> Transaction" where
  "start_task w tx t =
     (case Task_start w tx t of
        (ok, tx1) \<Rightarrow>
          if ok then tx1\<lparr>m_runningTasks := m_runningTasks tx1 @ [t]\<rparr> else tx1)"

text \<open>The loop of \<^verbatim>\<open>runTasks\<close> over the task queues, and what follows it.\<close>

fun runQueues :: "Env \<Rightarrow> Task list list \<Rightarrow> Transaction \<Rightarrow> bool \<times> Transaction" where
  "runQueues w [] tx =
     (let tx1 = registry_commit tx;
          tx2 = registerQueued w (m_regQueue tx1) tx1
      in (True, finish tx2))"
| "runQueues w (queue # rest) tx =
     (let tx1 = registry_savepoint tx;
          tx2 = foldl (start_task w) tx1 queue;
          tx3 = (registry_restore tx2)\<lparr>m_taskQueues := rest\<rparr>
      in case commitTasks w tx3 of
           (False, tx4) \<Rightarrow> (False, tx4)
         | (True, tx4) \<Rightarrow> runQueues w rest tx4)"

definition runTasks :: "Env \<Rightarrow> Transaction \<Rightarrow> bool \<times> Transaction" where
  "runTasks w tx =
     (let tx1 = (if m_nextQueue tx \<noteq> []
                 then tx\<lparr>m_taskQueues := m_taskQueues tx @ [m_nextQueue tx], m_nextQueue := []\<rparr>
                 else tx)
      in case commitTasks w tx1 of
           (False, tx2) \<Rightarrow> (False, tx2)
         | (True, tx2) \<Rightarrow>
             if m_isCancelled tx2 then (True, finish tx2)
             else
               let tx3 = promptObsolete_step w tx2
               in runQueues w (m_taskQueues tx3) tx3)"

subsection \<open>The thread pool reports\<close>

text \<open>
  Modelled from the spec: the thread pool (thread.cpp) is not among the
  sources. When the task at position \<open>i\<close> of the pool finishes in a state, its
  \<^verbatim>\<open>onFinish\<close> handlers run: for the download of an index the closure of
  \<^verbatim>\<open>fetchIndex\<close> (\<open>saved\<close> is the result of \<^verbatim>\<open>dl->save()\<close>), then, for every
  task, the handler of the constructor, which records the error \<open>err\<close> of a
  failed task. The task leaves the pool, and a pool that has become idle signals
  \<^verbatim>\<open>onDone\<close>, which the constructor binds to \<^verbatim>\<open>runTasks\<close>.
\<close>

definition download_finished :: "Env \<Rightarrow> Remote \<Rightarrow> Callback option \<Rightarrow> bool
    \<Rightarrow> Transaction \<Rightarrow> error option \<times> Transaction" where
  "download_finished w r cb saved tx =
     (let path = pathFor w (remote_name r);
          tx1 = (if \<not> saved then addError (FS_lastError w, join path) tx else tx)
      in if fs_exists w path then load_index w r cb tx1 else (None, tx1))"

definition thread_finished :: "Env \<Rightarrow> nat \<Rightarrow> ThreadState \<Rightarrow> bool \<Rightarrow> string \<times> string
    \<Rightarrow> Transaction \<Rightarrow> error option \<times> Transaction" where
  "thread_finished w i st saved err tx =
     (if length (m_threadPool tx) \<le> i then (None, tx)
      else
        (case (case m_threadPool tx ! i of
                 IndexDownload r cb \<Rightarrow> download_finished w r cb saved tx
               | TaskJob p \<Rightarrow> (None, tx)) of
           (Some e, tx1) \<Rightarrow> (Some e, tx1)
         | (None, tx1) \<Rightarrow>
             let tx2 = (if st = Failure then addError err tx1 else tx1);
                 tx3 = log_event (ThreadDone (m_threadPool tx ! i) st)
                         (tx2\<lparr>m_threadPool :=
                            take i (m_threadPool tx2) @ drop (Suc i) (m_threadPool tx2)\<rparr>)
             in if ThreadPool_idle tx3 then (None, snd (runTasks w tx3)) else (None, tx3)))"

subsection \<open>The calls a transaction receives\<close>

datatype Call =
  Abort
  | Synchronize Remote "bool option"
  | FetchIndex Remote bool
  | Install Package Version bool bool
  | SetPinned Entry bool
  | Uninstall Entry
  | RegisterFile HostTicket
  | Inhibit Remote
  | RunTasks
  | ThreadFinished nat ThreadState bool "string \<times> string"

fun call :: "Env \<Rightarrow> Call \<Rightarrow> Transaction \<Rightarrow> error option \<times> Transaction" where
  "call w Abort tx = (None, onAbort tx)"
| "call w (Synchronize r force) tx = synchronize w r force tx"
| "call w (FetchIndex r stale) tx = fetchIndex w r stale None tx"
| "call w (Install pkg ver pin reader) tx = (None, install pkg ver pin reader tx)"
| "call w (SetPinned e p) tx = (None, setPinned e p tx)"
| "call w (Uninstall e) tx = (None, uninstall e tx)"
| "call w (RegisterFile t) tx = (None, registerFile t tx)"
| "call w (Inhibit r) tx = (None, inhibit r tx)"
| "call w RunTasks tx = (None, snd (runTasks w tx))"
| "call w (ThreadFinished i st saved err) tx = thread_finished w i st saved err tx"

text \<open>A run of calls, each in the world of its moment; an error that escapes
  a call ends the run.\<close>

fun calls :: "(Env \<times> Call) list \<Rightarrow> Transaction \<Rightarrow> error option \<times> Transaction" where
  "calls [] tx = (None, tx)"
| "calls ((w, c) # cs) tx =
     (case call w c tx of
        (Some e, tx1) \<Rightarrow> (Some e, tx1)
      | (None, tx1) \<Rightarrow> calls cs tx1)"

subsection \<open>What the resolution and the index callbacks leave alone\<close>

text \<open>Two states of a transaction agree on the cancellation flag, the
  registry, the queues that are run, the pool and the log.\<close>

definition same_core :: "Transaction \<Rightarrow> Transaction \<Rightarrow> bool" where
  "same_core a b =
     (m_isCancelled b = m_isCancelled a \<and> m_config b = m_config a
      \<and> m_registry b = m_registry a \<and> trace b = trace a
      \<and> m_regQueue b = m_regQueue a \<and> m_runningTasks b = m_runningTasks a
      \<and> m_taskQueues b = m_taskQueues a \<and> m_threadPool b = m_threadPool a)"

text \<open>An install task that replaces a pinned entry by a strictly newer
  version.\<close>

fun upgrades_pinned :: "Task \<Rightarrow> bool" where
  "upgrades_pinned (InstallTask ver pin (Some e) reader) =
     (pinned e \<and> version_less (version e) ver)"
| "upgrades_pinned t = False"

subsection \<open>Reading the log\<close>

text \<open>
  The phases of a run, read off the log. A phase is the list of the tasks that
  were started and are neither committed nor rolled back, the number of
  tasks in the pool, and whether a savepoint of a queue is open. \<open>advance\<close>
  accepts an event in a phase when: a savepoint is opened, or the registry
  committed, with no savepoint open and no task unsettled; a task is started
  under an open savepoint; the savepoint is restored when it is open; a task
  is committed or rolled back when no savepoint is open, the pool is idle and
  the task is the first of the unsettled ones.
\<close>

type_synonym phase = "Task list \<times> nat \<times> bool"

fun advance :: "phase \<Rightarrow> Event \<Rightarrow> phase option" where
  "advance (run, n, opn) RegSavepoint = (if run = [] \<and> \<not> opn then Some (run, n, True) else None)"
| "advance (run, n, opn) RegRestore = (if opn then Some (run, n, False) else None)"
| "advance (run, n, opn) RegCommit = (if run = [] \<and> \<not> opn then Some (run, n, opn) else None)"
| "advance (run, n, opn) (PoolPush j) = Some (run, Suc n, opn)"
| "advance (run, n, opn) (ThreadDone j st) = (if 0 < n then Some (run, n - 1, opn) else None)"
| "advance (run, n, opn) (TaskStart t ok) =
     (if opn then Some (if ok then run @ [t] else run, n, opn) else None)"
| "advance (run, n, opn) (TaskCommit t) =
     (if \<not> opn \<and> n = 0 \<and> run \<noteq> [] \<and> hd run = t then Some (tl run, n, opn) else None)"
| "advance (run, n, opn) (TaskRollback t) =
     (if \<not> opn \<and> n = 0 \<and> run \<noteq> [] \<and> hd run = t then Some (tl run, n, opn) else None)"
| "advance (run, n, opn) (HostCall a sec p c) = Some (run, n, opn)"
| "advance (run, n, opn) OnFinish = Some (run, n, opn)"
| "advance (run, n, opn) CleanupHandler = Some (run, n, opn)"

fun advances :: "phase \<Rightarrow> Event list \<Rightarrow> phase option" where
  "advances s [] = Some s"
| "advances s (e # es) = (case advance s e of None \<Rightarrow> None | Some s1 \<Rightarrow> advances s1 es)"

text \<open>The phase a transaction is in between two calls of its registry.\<close>

definition phase_of :: "Transaction \<Rightarrow> bool \<Rightarrow> phase" where
  "phase_of tx opn = (m_runningTasks tx, length (m_threadPool tx), opn)"

text \<open>From one state of a transaction to a later one the log grew by events
  that lead from the phase of the first to the phase of the second.\<close>

definition steps :: "Transaction \<Rightarrow> bool \<Rightarrow> Transaction \<Rightarrow> bool \<Rightarrow> bool" where
  "steps tx opn tx1 opn1 =
     (take (length (trace tx)) (trace tx1) = trace tx
      \<and> advances (phase_of tx opn) (drop (length (trace tx)) (trace tx1))
          = Some (phase_of tx1 opn1))"

text \<open>What the spec asks of the log: the savepoint of a queue is restored
  only when the pool, with \<open>n\<close> tasks at first, is idle.\<close>

fun restores_when_idle :: "nat \<Rightarrow> Event list \<Rightarrow> bool" where
  "restores_when_idle n [] = True"
| "restores_when_idle n (PoolPush j # es) = restores_when_idle (Suc n) es"
| "restores_when_idle n (ThreadDone j st # es) = restores_when_idle (n - 1) es"
| "restores_when_idle n (RegRestore # es) = (n = 0 \<and> restores_when_idle n es)"
| "restores_when_idle n (e # es) = restores_when_idle n es"

text \<open>The events by which something of a transaction becomes durable or
  reaches the host: the commit of the registry, the commit of a task and a
  call of the host.\<close>

fun commits :: "Event \<Rightarrow> bool" where
  "commits RegCommit = True"
| "commits (TaskCommit t) = True"
| "commits (HostCall a sec p c) = True"
| "commits e = False"

text \<open>From one state of a transaction to a later one nothing became durable:
  the later state is cancelled, the committed content of the registry is the
  same, and the log grew by events none of which commits.\<close>

definition quiet :: "Transaction \<Rightarrow> Transaction \<Rightarrow> bool" where
  "quiet a b =
     (m_isCancelled b
      \<and> committed (m_registry b) = committed (m_registry a)
      \<and> take (length (trace a)) (trace b) = trace a
      \<and> list_all (\<lambda>e. \<not> commits e) (drop (length (trace a)) (trace b)))"

section \<open>A small installation\<close>

text \<open>
  Concrete data on which the properties below are exercised: a repository
  \<^verbatim>\<open>repo\<close> with one script in two versions, an installation that has version
  1.0 of it, pinned, and a world in which no file exists, the latest version
  of a package is the last one of its list and every task starts at once.
\<close>

definition demo_v1 :: Version where
  "demo_v1 = \<lparr>name = ''1.0'', code = 1000000000000, files = [[''Scripts'', ''a.lua'']]\<rparr>"

definition demo_v2 :: Version where
  "demo_v2 = \<lparr>name = ''2.0'', code = 2000000000000, files = [[''Scripts'', ''a.lua'']]\<rparr>"

definition demo_pkg :: Package where
  "demo_pkg = \<lparr>pkg_type = ScriptType, pkg_name = ''a.lua'', pkg_category = ''Tools'',
     pkg_index = ''repo'', versions = [demo_v1, demo_v2]\<rparr>"

definition demo_old_pkg :: Package where
  "demo_old_pkg = demo_pkg\<lparr>versions := [demo_v1]\<rparr>"

definition demo_index :: Index where
  "demo_index = \<lparr>idx_name = ''repo'',
     categories = [\<lparr>cat_name = ''Tools'', packages = [demo_pkg]\<rparr>]\<rparr>"

definition demo_entry :: Entry where
  "demo_entry = \<lparr>remote = ''repo'', category = ''Tools'', package = ''a.lua'',
     version = demo_v1, pinned = True\<rparr>"

definition demo_remote :: Remote where
  "demo_remote = \<lparr>remote_name = ''repo'', url = ''https://example.org/index.xml'',
     isEnabled = True, isProtected = False, remote_autoInstall = None\<rparr>"

definition demo_opts :: InstallOpts where
  "demo_opts = \<lparr>autoInstall = False, bleedingEdge = False, promptObsolete = False\<rparr>"

definition demo_env :: Env where
  "demo_env = \<lparr>CACHE = [''ReaPack'', ''Cache''], now = 1500000000,
     fs_mtime = (\<lambda>p. None), fs_exists = (\<lambda>p. False),
     FS_lastError = ''No such file or directory'',
     document = (\<lambda>n. Unreadable ''No such file or directory''),
     loadV1 = (\<lambda>root ri. Inr ri),
     overflowed = (\<lambda>s. 0),
     lastVersion = (\<lambda>pkg pres from. if versions pkg = [] then None else Some (last (versions pkg))),
     obsoleteHandler = (\<lambda>es. (True, es)),
     task_start = (\<lambda>t reg. (True, reg, [])),
     task_commit = (\<lambda>t reg. (reg, [])),
     task_rollback = (\<lambda>t reg. reg),
     AddRemoveReaScript = None\<rparr>"

text \<open>The same world with a manifest of \<^verbatim>\<open>repo\<close> in the cache that was
  written a minute ago and holds the index above.\<close>

definition fresh_env :: Env where
  "fresh_env = demo_env\<lparr>fs_mtime := (\<lambda>p. Some (1500000000 - 60)), fs_exists := (\<lambda>p. True),
     document := (\<lambda>n. Document 0 [] (Some (Element ''index'' [(''version'', ''1'')] []))),
     loadV1 := (\<lambda>root ri. Inr demo_index)\<rparr>"

definition demo_tx :: Transaction where
  "demo_tx = Transaction_new demo_opts [demo_entry]"

text \<open>A world in which a task that starts pushes one download to the pool,
  and the transaction with an install of version 2.0 queued.\<close>

definition busy_env :: Env where
  "busy_env = demo_env\<lparr>task_start := (\<lambda>t reg. (True, reg, [TaskJob [''Scripts'', ''a.lua'']]))\<rparr>"

definition demo_task :: Task where
  "demo_task = InstallTask demo_v2 False (Some demo_entry) False"

definition queued_tx :: Transaction where
  "queued_tx = install demo_pkg demo_v2 False False demo_tx"

text \<open>The transaction after \<^verbatim>\<open>runTasks\<close> in that world: the task is running
  and its download is in the pool; and the same with the download gone from
  the pool.\<close>

definition running_tx :: Transaction where
  "running_tx = snd (runTasks busy_env queued_tx)"

definition idle_tx :: Transaction where
  "idle_tx = running_tx\<lparr>m_threadPool := []\<rparr>"

section \<open>Importing an archive\<close>

subsection \<open>Reading the fields of a line\<close>

text \<open>
  The input stream of the standard library over the rest of a line: the
  characters not read yet, and whether the stream is good. An extraction from
  a stream that is not good stores nothing; skipping white space into the end
  of the input makes the stream fail.
\<close>

type_synonym istream = "string \<times> bool"

text \<open>\<^verbatim>\<open>is >> c\<close> for a character, with and without the skipping of white
  space.\<close>

definition get_char :: "bool \<Rightarrow> istream \<Rightarrow> char option \<times> istream" where
  "get_char skipws is =
     (case is of
        (s, good) \<Rightarrow>
          if \<not> good then (None, (s, False))
          else (case (if skipws then dropWhile isspace s else s) of
                  [] \<Rightarrow> (None, ([], False))
                | c # cs \<Rightarrow> (Some c, (cs, True))))"

text \<open>\<^verbatim>\<open>is >> str\<close> for a string: the characters up to the next white space;
  reaching the end of the input sets the end-of-file bit.\<close>

definition get_word :: "string \<Rightarrow> istream \<Rightarrow> string \<times> istream" where
  "get_word str is =
     (case is of
        (s, good) \<Rightarrow>
          if \<not> good then (str, (s, False))
          else (case dropWhile isspace s of
                  [] \<Rightarrow> (str, ([], False))
                | c # cs \<Rightarrow>
                    (takeWhile (\<lambda>x. \<not> isspace x) (c # cs),
                     (dropWhile (\<lambda>x. \<not> isspace x) (c # cs),
                      dropWhile (\<lambda>x. \<not> isspace x) (c # cs) \<noteq> []))))"

text \<open>The loop of \<^verbatim>\<open>is >> std::quoted(str)\<close> after the opening quote:
  characters are appended until the closing quote; a backslash takes the next
  character as it is; the end of the input makes the stream fail.\<close>

fun get_quoted_rest :: "string \<Rightarrow> string \<Rightarrow> string \<times> istream" where
  "get_quoted_rest acc [] = (acc, ([], False))"
| "get_quoted_rest acc [c] =
     (if c = CHR 0x5C then (acc, ([], False))
      else if c = CHR 0x22 then (acc, ([], True))
      else get_quoted_rest (acc @ [c]) [])"
| "get_quoted_rest acc (c # d # cs) =
     (if c = CHR 0x5C then get_quoted_rest (acc @ [d]) cs
      else if c = CHR 0x22 then (acc, (d # cs, True))
      else get_quoted_rest (acc @ [c]) (d # cs))"

definition get_quoted :: "istream \<Rightarrow> string \<times> istream" where
  "get_quoted is =
     (case get_char True is of
        (None, is1) \<Rightarrow> ([], is1)
      | (Some c, (rest, good)) \<Rightarrow>
          if c \<noteq> CHR 0x22 then get_word [] (c # rest, True)
          else get_quoted_rest [] rest)"

text \<open>\<^verbatim>\<open>is >> pinned\<close> for a \<^verbatim>\<open>bool\<close> that was not initialised: nothing is
  stored when the stream is not good or holds white space only, and the
  variable keeps its indeterminate value \<open>junk\<close>; otherwise a sign and digits
  are read as a number, and the number 0, or no number at all, stores false,
  any other number true.\<close>

definition get_bool :: "bool \<Rightarrow> istream \<Rightarrow> bool" where
  "get_bool junk is =
     (case is of
        (s, good) \<Rightarrow>
          if \<not> good then junk
          else (case dropWhile isspace s of
                  [] \<Rightarrow> junk
                | c # cs \<Rightarrow>
                    stoi (takeWhile is_digit
                      (if c = CHR ''-'' \<or> c = CHR ''+'' then cs else c # cs)) \<noteq> 0))"

text \<open>The four extractions of \<^verbatim>\<open>importPackage\<close>.\<close>

definition read_package_fields :: "bool \<Rightarrow> string \<Rightarrow> string \<times> string \<times> string \<times> bool" where
  "read_package_fields junk data =
     (case get_quoted (data, True) of
        (categoryName, is1) \<Rightarrow>
          (case get_quoted is1 of
             (packageName, is2) \<Rightarrow>
               (case get_quoted is2 of
                  (versionName, is3) \<Rightarrow>
                    (categoryName, packageName, versionName, get_bool junk is3))))"

subsection \<open>Printing a number\<close>

function show_nat :: "nat \<Rightarrow> string" where
  "show_nat n =
     (if n < 10 then [char_of (48 + n)]
      else show_nat (n div 10) @ [char_of (48 + n mod 10)])"
  by pat_completeness auto
termination
  by (relation "measure id") auto

declare show_nat.simps [simp del]

definition show_int :: "int \<Rightarrow> string" where
  "show_int i = (if i < 0 then CHR ''-'' # show_nat (nat (- i)) else show_nat (nat i))"

subsection \<open>Replaying the table of contents\<close>

text \<open>
  What the import reads and calls besides the transaction: the world of the
  transaction; whether the archive can be opened (\<^verbatim>\<open>FS::lastError()\<close> when it
  cannot); the status and the text of the extraction of the table of
  contents; the extraction of a file to disk, which throws when the target
  cannot be opened and returns a status otherwise; \<^verbatim>\<open>Remote::fromString\<close>;
  \<^verbatim>\<open>Package::findVersion\<close>, which may throw (the message is on the left); the
  indeterminate value of the local \<^verbatim>\<open>pinned\<close>. None of this code is among the
  sources.
\<close>

record ArchiveEnv =
  world :: Env
  archive_open :: "string option"
  toc :: "int \<times> string"
  extractFile :: "Path \<Rightarrow> string + int"
  Remote_fromString :: "string \<Rightarrow> Remote"
  findVersion :: "Package \<Rightarrow> string \<Rightarrow> string + Version option"
  junk_pinned :: bool

record ImportArchive =
  m_lastIndex :: "Index option"
  m_remotes :: "Remote list"
  m_tx :: Transaction

text \<open>Modelled from the spec: the list of remotes (remote.cpp) is not among
  the sources. It holds the remotes by name: \<open>get\<close> finds the remote of a
  name, \<open>add\<close> replaces the remote of the same name or appends.\<close>

definition RemoteList_get :: "Remote list \<Rightarrow> string \<Rightarrow> Remote option" where
  "RemoteList_get rs n = List.find (\<lambda>r. remote_name r = n) rs"

definition RemoteList_add :: "Remote \<Rightarrow> Remote list \<Rightarrow> Remote list" where
  "RemoteList_add r rs =
     (if list_ex (\<lambda>x. remote_name x = remote_name r) rs
      then map (\<lambda>x. if remote_name x = remote_name r then r else x) rs
      else rs @ [r])"

text \<open>The lines that successive calls of \<^verbatim>\<open>getline\<close> yield.\<close>

fun getlines :: "string \<Rightarrow> string \<Rightarrow> string list" where
  "getlines cur [] = (if cur = [] then [] else [cur])"
| "getlines cur (c # cs) =
     (if c = CHR 0x0A then cur # getlines [] cs else getlines (cur @ [c]) cs)"

text \<open>\<^verbatim>\<open>ImportArchive::importRemote\<close> and \<^verbatim>\<open>importPackage\<close>. The first component
  of the result is the exception that leaves the function, if any; the state
  is the one at that moment.\<close>

definition importRemote :: "ArchiveEnv \<Rightarrow> string \<Rightarrow> ImportArchive \<Rightarrow> error option \<times> ImportArchive" where
  "importRemote a data st =
     (let st1 = st\<lparr>m_lastIndex := None\<rparr>;
          r = Remote_fromString a data
      in case extractFile a (pathFor (world a) (remote_name r)) of
           Inl what \<Rightarrow> (Some (ReapackError what), st1)
         | Inr err \<Rightarrow>
             if err \<noteq> 0
             then (Some (ReapackError (''Failed to extract index of '' @ remote_name r
                           @ '' ('' @ show_int err @ '')'')), st1)
             else
               let r1 = (case RemoteList_get (m_remotes st1) (remote_name r) of
                           Some original \<Rightarrow>
                             if isProtected original
                             then r\<lparr>url := url original, isProtected := True\<rparr>
                             else r
                         | None \<Rightarrow> r);
                   st2 = st1\<lparr>m_remotes := RemoteList_add r1 (m_remotes st1)\<rparr>
               in case Index_load (overflowed (world a)) (loadV1 (world a)) (remote_name r1)
                         (document (world a) (remote_name r1)) of
                    Inr ri \<Rightarrow> (None, st2\<lparr>m_lastIndex := Some ri\<rparr>)
                  | Inl e \<Rightarrow> (Some e, st2))"

definition not_found_message :: "Index \<Rightarrow> string \<Rightarrow> string \<Rightarrow> string \<Rightarrow> string" where
  "not_found_message ri categoryName packageName versionName =
     idx_name ri @ ''/'' @ categoryName @ ''/'' @ packageName @ '' v'' @ versionName
       @ '' cannot be found or is incompatible with your operating system.''"

definition importPackage :: "ArchiveEnv \<Rightarrow> string \<Rightarrow> ImportArchive \<Rightarrow> error option \<times> ImportArchive" where
  "importPackage a data st =
     (case m_lastIndex st of
        None \<Rightarrow> (None, st)
      | Some ri \<Rightarrow>
          (case read_package_fields (junk_pinned a) data of
             (categoryName, packageName, versionName, pin) \<Rightarrow>
               (case Index_find ri categoryName packageName of
                  None \<Rightarrow>
                    (Some (ReapackError
                       (not_found_message ri categoryName packageName versionName)), st)
                | Some pkg \<Rightarrow>
                    (case findVersion a pkg versionName of
                       Inl what \<Rightarrow> (Some (ReapackError what), st)
                     | Inr None \<Rightarrow>
                         (Some (ReapackError
                            (not_found_message ri categoryName packageName versionName)), st)
                     | Inr (Some ver) \<Rightarrow>
                         (None, st\<lparr>m_tx := install pkg ver pin True (m_tx st)\<rparr>)))))"

text \<open>The body of the loop of \<^verbatim>\<open>Archive::import\<close> on one line of the table of
  contents; \<open>caught\<close> is its \<^verbatim>\<open>catch\<close> of \<^verbatim>\<open>reapack_error\<close>, and \<open>archive\<close> is the
  path of the archive.\<close>

definition unknown_token :: "string \<Rightarrow> string" where
  "unknown_token line = ''Unknown token '' @ [CHR 0x27] @ take 4 line @ [CHR 0x27] @ '' (skipping)''"

definition caught :: "string \<Rightarrow> error option \<times> ImportArchive \<Rightarrow> error option \<times> ImportArchive" where
  "caught archive r =
     (case r of
        (Some (ReapackError what), st1) \<Rightarrow>
          (None, st1\<lparr>m_tx := addError (what, archive) (m_tx st1)\<rparr>)
      | (Some NullDereference, st1) \<Rightarrow> (Some NullDereference, st1)
      | (None, st1) \<Rightarrow> (None, st1))"

definition import_line :: "ArchiveEnv \<Rightarrow> string \<Rightarrow> ImportArchive \<Rightarrow> string \<Rightarrow> error option \<times> ImportArchive" where
  "import_line a archive st line =
     (if length line \<le> 5 then (None, st)
      else
        let data = drop 5 line in
        caught archive
          (if hd line = CHR ''R'' then importRemote a data st
           else if hd line = CHR ''P'' then importPackage a data st
           else (Some (ReapackError (unknown_token line)), st)))"

fun import_lines :: "ArchiveEnv \<Rightarrow> string \<Rightarrow> ImportArchive \<Rightarrow> string list \<Rightarrow> error option \<times> ImportArchive" where
  "import_lines a archive st [] = (None, st)"
| "import_lines a archive st (line # rest) =
     (case import_line a archive st line of
        (Some e, st1) \<Rightarrow> (Some e, st1)
      | (None, st1) \<Rightarrow> import_lines a archive st1 rest)"

text \<open>
  \<^verbatim>\<open>Archive::import\<close>. \<open>remotes\<close> are the remotes of the configuration and
  \<open>created\<close> is what \<^verbatim>\<open>setupTransaction\<close> returns (nothing when no transaction can
  be created). The result is the exception that leaves the import, or the
  state after \<^verbatim>\<open>runTasks\<close>, or nothing when there is no transaction.
\<close>

definition Archive_import :: "ArchiveEnv \<Rightarrow> string \<Rightarrow> Remote list \<Rightarrow> Transaction option
    \<Rightarrow> error + ImportArchive option" where
  "Archive_import a archive remotes created =
     (case archive_open a of
        Some lastError \<Rightarrow> Inl (ReapackError lastError)
      | None \<Rightarrow>
          (case toc a of
             (err, content) \<Rightarrow>
               if err \<noteq> 0
               then Inl (ReapackError
                      (''Cannot locate the table of contents ('' @ show_int err @ '')''))
               else
                 (case created of
                    None \<Rightarrow> Inr None
                  | Some tx \<Rightarrow>
                      (case import_lines a archive
                              \<lparr>m_lastIndex = None, m_remotes = remotes, m_tx = tx\<rparr>
                              (getlines [] content) of
                         (Some e, st) \<Rightarrow> Inl e
                       | (None, st) \<Rightarrow>
                           Inr (Some (st\<lparr>m_tx := snd (runTasks (world a) (m_tx st))\<rparr>))))))"

text \<open>An archive whose table of contents holds one package line and no
  repository line, and the state of an import that has loaded the index
  above.\<close>

definition demo_archive :: ArchiveEnv where
  "demo_archive = \<lparr>world = demo_env, archive_open = None,
     toc = (0, ''PACK \"Tools\" \"a.lua\" \"1.0\" 0''),
     extractFile = (\<lambda>p. Inr 0),
     Remote_fromString = (\<lambda>s. demo_remote),
     findVersion = (\<lambda>pkg n. Inr (List.find (\<lambda>v. name v = n) (versions pkg))),
     junk_pinned = False\<rparr>"

definition demo_state :: ImportArchive where
  "demo_state = \<lparr>m_lastIndex = Some demo_index, m_remotes = [demo_remote], m_tx = demo_tx\<rparr>"

text \<open>An archive with two repository lines and a package line after them.
  The index of the first repository is in the archive and loads. The index
  of the second is missing from the archive: its extraction fails with the
  status -100. The package line names a package that the index of the first
  repository does not have.\<close>

definition failing_archive :: ArchiveEnv where
  "failing_archive = \<lparr>world = fresh_env, archive_open = None,
     toc = (0, ''REPO repo'' @ [CHR 0x0A] @ ''REPO broken'' @ [CHR 0x0A]
               @ ''PACK \"Tools\" \"b.lua\" \"1.0\" 0''),
     extractFile = (\<lambda>p. if p = pathFor fresh_env ''broken'' then Inr (- 100) else Inr 0),
     Remote_fromString = (\<lambda>s. demo_remote\<lparr>remote_name := s\<rparr>),
     findVersion = (\<lambda>pkg n. Inr (List.find (\<lambda>v. name v = n) (versions pkg))),
     junk_pinned = False\<rparr>"

definition empty_state :: ImportArchive where
  "empty_state = \<lparr>m_lastIndex = None, m_remotes = [], m_tx = demo_tx\<rparr>"


section \<open>Properties of version names\<close>

lemmas version_eval = Version_new_def components_def stoi_def is_digit_def digit_value_def

lemma digit_runs_digits:
  "\<forall>c\<in>set d. is_digit c \<Longrightarrow> digit_runs cur (d @ rest) = digit_runs (cur @ d) rest"
  by (induction d arbitrary: cur) simp_all

lemma digit_runs_dot:
  "digit_runs cur (CHR ''.'' # rest) = (if cur = [] then [] else [cur]) @ digit_runs [] rest"
  by (simp add: is_digit_def)

lemma digit_runs_dotted:
  assumes "\<forall>d\<in>set ds. d \<noteq> [] \<and> (\<forall>c\<in>set d. is_digit c)"
  shows "digit_runs [] (dotted ds) = ds"
  using assms
proof (induction ds rule: dotted.induct)
  case 1
  then show ?case by simp
next
  case (2 d)
  then show ?case using digit_runs_digits [of d "[]" "[]"] by simp
next
  case (3 d e ds)
  then have d: "d \<noteq> []" "\<forall>c\<in>set d. is_digit c" by simp_all
  have "digit_runs [] (dotted (d # e # ds)) = digit_runs d (CHR ''.'' # dotted (e # ds))"
    using digit_runs_digits [OF d(2), of "[]"] by simp
  also have "\<dots> = d # digit_runs [] (dotted (e # ds))"
    using d(1) by (simp only: digit_runs_dot) simp
  finally show ?case using 3 by simp
qed

text \<open>On a string that is spelled as numerals separated by dots, the components
  of the model are the values of these numerals.\<close>

lemma components_dotted:
  "\<forall>d\<in>set ds. d \<noteq> [] \<and> (\<forall>c\<in>set d. is_digit c) \<Longrightarrow> components (dotted ds) = map stoi ds"
  by (simp add: components_def digit_runs_dotted)

lemma pack_bound:
  "length cs \<le> Suc k \<Longrightarrow> \<forall>c\<in>set cs. c < 10000 \<Longrightarrow> pack k cs < 10000 ^ Suc k"
proof (induction cs arbitrary: k)
  case Nil
  then show ?case by simp
next
  case (Cons c cs)
  have c: "c \<le> 9999" using Cons.prems(2) by simp
  have rest: "pack (k - 1) cs < 10000 ^ k"
  proof (cases k)
    case 0
    with Cons.prems(1) show ?thesis by simp
  next
    case (Suc j)
    with Cons.prems have "length cs \<le> Suc j" "\<forall>c\<in>set cs. c < 10000" by simp_all
    from Cons.IH[OF this] Suc show ?thesis by simp
  qed
  have "c * 10000 ^ k \<le> 9999 * 10000 ^ k" using c by simp
  with rest have "c * 10000 ^ k + pack (k - 1) cs < 9999 * 10000 ^ k + 10000 ^ k"
    by linarith
  also have "\<dots> = 10000 ^ Suc k" by simp
  finally show ?case by simp
qed

text \<open>The code of every version that was constructed fits the 64 bits the spec
  gives it, so that the packing never wraps.\<close>

lemma code_fits_64_bits:
  assumes "Version_new s = Inr v"
  shows "code v < 2 ^ 64"
proof -
  let ?cs = "components s"
  from assms have len: "length ?cs \<le> 4" and small: "\<not> list_ex (\<lambda>c. 10000 \<le> c) ?cs"
    and v: "code v = pack 3 ?cs"
    by (auto simp: Version_new_def Let_def split: if_splits)
  from small have "\<forall>c\<in>set ?cs. c < 10000" by (auto simp: list_ex_iff)
  with len have "pack 3 ?cs < 10000 ^ Suc 3" by (intro pack_bound) simp_all
  also have "(10000::nat) ^ Suc 3 < 2 ^ 64" by simp
  finally show ?thesis using v by simp
qed

text \<open>
  Claim C7. Equality and order of versions are equality and order of their
  packed codes and of nothing else, so that two spellings with one code are
  equal. On the inputs of the test suite: \<^verbatim>\<open>5.05\<close> equals \<^verbatim>\<open>5.5\<close>,
  \<^verbatim>\<open>5.5\<close> is below \<^verbatim>\<open>5.50\<close>, \<^verbatim>\<open>1.2pre3\<close> has the code of \<^verbatim>\<open>1.2.3\<close>,
  \<^verbatim>\<open>1.2.3.4\<close> is below \<^verbatim>\<open>1.2.4\<close>, and the code of \<^verbatim>\<open>1.2.3\<close> is
  1000200030000.
\<close>

theorem version_compare_by_code:
  "(\<forall>a b. version_eq a b = (code a = code b))
   \<and> (\<forall>a b. version_less a b = (code a < code b))
   \<and> compare_names version_eq ''5.05'' ''5.5'' = Some True
   \<and> compare_names version_less ''5.5'' ''5.50'' = Some True
   \<and> code_of ''1.2pre3'' = code_of ''1.2.3''
   \<and> compare_names version_less ''1.2.3.4'' ''1.2.4'' = Some True
   \<and> code_of ''1.2.3'' = Some 1000200030000"
proof -
  have eq: "\<forall>a b. version_eq a b = (code a = code b)"
    by (simp add: version_eq_def)
  have less: "\<forall>a b. version_less a b = (code a < code b)"
    by (simp add: version_less_def)
  have a: "compare_names version_eq ''5.05'' ''5.5'' = Some True"
    by (simp add: compare_names_def version_eq_def version_eval)
  have b: "compare_names version_less ''5.5'' ''5.50'' = Some True"
    by (simp add: compare_names_def version_less_def version_eval)
  have c: "code_of ''1.2pre3'' = code_of ''1.2.3''"
    by (simp add: code_of_def version_eval)
  have d: "compare_names version_less ''1.2.3.4'' ''1.2.4'' = Some True"
    by (simp add: compare_names_def version_less_def version_eval)
  have e: "code_of ''1.2.3'' = Some 1000200030000"
    by (simp add: code_of_def version_eval)
  from eq less a b c d e show ?thesis by blast
qed

text \<open>
  Claim C8. Constructing a version from a string with no numeric component or
  with five or more fails with \<^verbatim>\<open>invalid version name\<close>; from a string with one
  to four components of which one is 10000 or more (a numeral of more than
  four digits) it fails with \<^verbatim>\<open>version component overflow\<close>; from a string
  with one to four components that are all at most 9999 it succeeds, keeping
  the spelling as the name. The count of the components is checked first, so
  a string with both defects is an invalid name.
\<close>

theorem version_new_errors:
  "(components s = [] \<or> 4 < length (components s)
      \<longrightarrow> Version_new s = Inl (ReapackError ''invalid version name''))
   \<and> (components s \<noteq> [] \<and> length (components s) \<le> 4
        \<and> (\<exists>c\<in>set (components s). 10000 \<le> c)
      \<longrightarrow> Version_new s = Inl (ReapackError ''version component overflow''))
   \<and> (components s \<noteq> [] \<and> length (components s) \<le> 4
        \<and> (\<forall>c\<in>set (components s). c \<le> 9999)
      \<longrightarrow> Version_new s = Inr \<lparr>name = s, code = pack 3 (components s), files = []\<rparr>)"
proof -
  have "\<not> (\<exists>c\<in>set (components s). 10000 \<le> c)" if "\<forall>c\<in>set (components s). c \<le> 9999"
    using that by fastforce
  then show ?thesis
    by (auto simp: Version_new_def Let_def list_ex_iff)
qed

theorem version_new_errors_witness:
  "Version_new ''hello'' = Inl (ReapackError ''invalid version name'')
   \<and> Version_new ''1.2.3.4.5'' = Inl (ReapackError ''invalid version name'')
   \<and> Version_new ''12345.1'' = Inl (ReapackError ''version component overflow'')
   \<and> Version_new ''0.2015.12.25'' = Inr \<lparr>name = ''0.2015.12.25'', code = 201500120025, files = []\<rparr>"
proof -
  have c1: "components ''hello'' = []"
    by (simp add: components_def is_digit_def)
  have c2: "components ''1.2.3.4.5'' = [1, 2, 3, 4, 5]"
    by (simp add: components_def stoi_def is_digit_def digit_value_def)
  have c3: "components ''12345.1'' = [12345, 1]"
    by (simp add: components_def stoi_def is_digit_def digit_value_def)
  have c4: "components ''0.2015.12.25'' = [0, 2015, 12, 25]"
    by (simp add: components_def stoi_def is_digit_def digit_value_def)
  have r1: "Version_new ''hello'' = Inl (ReapackError ''invalid version name'')"
    using version_new_errors [of "''hello''"] c1 by simp
  have r2: "Version_new ''1.2.3.4.5'' = Inl (ReapackError ''invalid version name'')"
    using version_new_errors [of "''1.2.3.4.5''"] c2 by simp
  have r3: "Version_new ''12345.1'' = Inl (ReapackError ''version component overflow'')"
    using version_new_errors [of "''12345.1''"] c3 by simp
  have r4: "Version_new ''0.2015.12.25'' = Inr \<lparr>name = ''0.2015.12.25'', code = 201500120025, files = []\<rparr>"
    using version_new_errors [of "''0.2015.12.25''"] c4 by simp
  from r1 r2 r3 r4 show ?thesis by blast
qed

section \<open>Properties of loading an index\<close>

lemmas atoi_eval = atoi_def numeral_value_def INT_MIN_def INT_MAX_def isspace_def is_digit_def
  stoi_def digit_value_def

text \<open>
  Claim C9, as the code has it. On a document that parsed, \<^verbatim>\<open>Index::load\<close>
  fails with \<^verbatim>\<open>invalid index\<close> when the root element is not \<^verbatim>\<open>index\<close>; with
  \<^verbatim>\<open>index version not found\<close> when the root has no \<^verbatim>\<open>version\<close> attribute or
  one that \<^verbatim>\<open>atoi\<close> reads as 0; with \<^verbatim>\<open>index version is unsupported\<close> when
  \<^verbatim>\<open>atoi\<close> reads the attribute as a number other than 0 and 1; it runs the
  loader of version 1 when \<^verbatim>\<open>atoi\<close> reads the attribute as 1, and it returns
  an index only then. What \<^verbatim>\<open>atoi\<close> reads is the value of the numeral when
  that value fits an \<^verbatim>\<open>int\<close>, and is left to the C library otherwise.
\<close>

theorem index_load_cases:
  "(Value root \<noteq> ''index''
      \<longrightarrow> Index_load ov loader nm (Document 0 desc (Some root))
          = Inl (ReapackError ''invalid index''))
   \<and> (Value root = ''index'' \<and> map_of (attributes root) ''version'' = None
      \<longrightarrow> Index_load ov loader nm (Document 0 desc (Some root))
          = Inl (ReapackError ''index version not found''))
   \<and> (Value root = ''index'' \<and> map_of (attributes root) ''version'' = Some s
        \<and> atoi ov s = 0
      \<longrightarrow> Index_load ov loader nm (Document 0 desc (Some root))
          = Inl (ReapackError ''index version not found''))
   \<and> (Value root = ''index'' \<and> map_of (attributes root) ''version'' = Some s
        \<and> atoi ov s \<noteq> 0 \<and> atoi ov s \<noteq> 1
      \<longrightarrow> Index_load ov loader nm (Document 0 desc (Some root))
          = Inl (ReapackError ''index version is unsupported''))
   \<and> (Value root = ''index'' \<and> map_of (attributes root) ''version'' = Some s
        \<and> atoi ov s = 1
      \<longrightarrow> Index_load ov loader nm (Document 0 desc (Some root)) = loader root (Index_new nm))
   \<and> (Index_load ov loader nm doc = Inr ri
      \<longrightarrow> (\<exists>desc root s. doc = Document 0 desc (Some root) \<and> Value root = ''index''
            \<and> map_of (attributes root) ''version'' = Some s \<and> atoi ov s = 1
            \<and> loader root (Index_new nm) = Inr ri))
   \<and> (INT_MIN \<le> numeral_value s \<and> numeral_value s \<le> INT_MAX
      \<longrightarrow> atoi ov s = numeral_value s)
   \<and> (numeral_value s < INT_MIN \<or> INT_MAX < numeral_value s \<longrightarrow> atoi ov s = ov s)"
proof -
  have a: "INT_MIN \<le> numeral_value s \<and> numeral_value s \<le> INT_MAX
      \<longrightarrow> atoi ov s = numeral_value s"
    by (simp add: atoi_def)
  have b: "numeral_value s < INT_MIN \<or> INT_MAX < numeral_value s \<longrightarrow> atoi ov s = ov s"
    by (auto simp: atoi_def)
  have c: "Index_load ov loader nm doc = Inr ri
      \<longrightarrow> (\<exists>desc root s. doc = Document 0 desc (Some root) \<and> Value root = ''index''
            \<and> map_of (attributes root) ''version'' = Some s \<and> atoi ov s = 1
            \<and> loader root (Index_new nm) = Inr ri)"
    by (auto simp: Index_load_def Attribute_int_def Let_def
        split: TiXmlDocument.splits option.splits if_splits)
  have d: "(Value root \<noteq> ''index''
      \<longrightarrow> Index_load ov loader nm (Document 0 desc (Some root))
          = Inl (ReapackError ''invalid index''))
   \<and> (Value root = ''index'' \<and> map_of (attributes root) ''version'' = None
      \<longrightarrow> Index_load ov loader nm (Document 0 desc (Some root))
          = Inl (ReapackError ''index version not found''))
   \<and> (Value root = ''index'' \<and> map_of (attributes root) ''version'' = Some s
        \<and> atoi ov s = 0
      \<longrightarrow> Index_load ov loader nm (Document 0 desc (Some root))
          = Inl (ReapackError ''index version not found''))
   \<and> (Value root = ''index'' \<and> map_of (attributes root) ''version'' = Some s
        \<and> atoi ov s \<noteq> 0 \<and> atoi ov s \<noteq> 1
      \<longrightarrow> Index_load ov loader nm (Document 0 desc (Some root))
          = Inl (ReapackError ''index version is unsupported''))
   \<and> (Value root = ''index'' \<and> map_of (attributes root) ''version'' = Some s
        \<and> atoi ov s = 1
      \<longrightarrow> Index_load ov loader nm (Document 0 desc (Some root)) = loader root (Index_new nm))"
    by (simp add: Index_load_def Attribute_int_def Let_def)
  from a b c d show ?thesis by blast
qed

text \<open>The instances: a root that is not \<^verbatim>\<open>index\<close>; no attribute; the
  attributes \<^verbatim>\<open>zero\<close>, \<^verbatim>\<open>2\<close> and \<^verbatim>\<open>1\<close>; the attribute \<^verbatim>\<open>4294967297\<close>, which does
  not fit an \<^verbatim>\<open>int\<close>, with a C library that makes 1 of it: the index is
  loaded; and the attribute \<^verbatim>\<open>4294967296\<close> with a C library that makes 0 of
  it: the version is not found.\<close>

theorem index_load_cases_witness:
  "Index_load (\<lambda>s. 1) (\<lambda>root ri. Inr ri) ''repo''
        (Document 0 [] (Some (Element ''html'' [] [])))
     = Inl (ReapackError ''invalid index'')
   \<and> Index_load (\<lambda>s. 1) (\<lambda>root ri. Inr ri) ''repo''
        (Document 0 [] (Some (Element ''index'' [] [])))
     = Inl (ReapackError ''index version not found'')
   \<and> Index_load (\<lambda>s. 1) (\<lambda>root ri. Inr ri) ''repo''
        (Document 0 [] (Some (Element ''index'' [(''version'', ''zero'')] [])))
     = Inl (ReapackError ''index version not found'')
   \<and> Index_load (\<lambda>s. 1) (\<lambda>root ri. Inr ri) ''repo''
        (Document 0 [] (Some (Element ''index'' [(''version'', ''2'')] [])))
     = Inl (ReapackError ''index version is unsupported'')
   \<and> Index_load (\<lambda>s. 1) (\<lambda>root ri. Inr ri) ''repo''
        (Document 0 [] (Some (Element ''index'' [(''version'', ''1'')] [])))
     = Inr (Index_new ''repo'')
   \<and> INT_MAX < numeral_value ''4294967297''
   \<and> Index_load (\<lambda>s. 1) (\<lambda>root ri. Inr ri) ''repo''
        (Document 0 [] (Some (Element ''index'' [(''version'', ''4294967297'')] [])))
     = Inr (Index_new ''repo'')
   \<and> INT_MAX < numeral_value ''4294967296''
   \<and> Index_load (\<lambda>s. 0) (\<lambda>root ri. Inr ri) ''repo''
        (Document 0 [] (Some (Element ''index'' [(''version'', ''4294967296'')] [])))
     = Inl (ReapackError ''index version not found'')"
proof -
  let ?L = "\<lambda>(root::TiXmlElement) (ri::Index). (Inr ri :: error + Index)"
  let ?ov = "\<lambda>s::string. 1::int"
  have n0: "numeral_value ''zero'' = 0" by (simp add: atoi_eval)
  have n1: "numeral_value ''1'' = 1" by (simp add: atoi_eval)
  have n2: "numeral_value ''2'' = 2" by (simp add: atoi_eval)
  have big: "INT_MAX < numeral_value ''4294967297''" by (simp add: atoi_eval)
  have a0: "atoi ?ov ''zero'' = 0"
    using index_load_cases [where ov = ?ov and s = "''zero''"] n0
    by (simp add: INT_MIN_def INT_MAX_def)
  have a1: "atoi ?ov ''1'' = 1"
    using index_load_cases [where ov = ?ov and s = "''1''"] n1
    by (simp add: INT_MIN_def INT_MAX_def)
  have a2: "atoi ?ov ''2'' = 2"
    using index_load_cases [where ov = ?ov and s = "''2''"] n2
    by (simp add: INT_MIN_def INT_MAX_def)
  have a3: "atoi ?ov ''4294967297'' = 1"
    using index_load_cases [where ov = ?ov and s = "''4294967297''"] big by simp
  have r1: "Index_load ?ov ?L ''repo'' (Document 0 [] (Some (Element ''html'' [] [])))
      = Inl (ReapackError ''invalid index'')"
    using index_load_cases [where root = "Element ''html'' [] []" and ov = ?ov and loader = ?L
        and nm = "''repo''" and desc = "[]"] by simp
  have r2: "Index_load ?ov ?L ''repo'' (Document 0 [] (Some (Element ''index'' [] [])))
      = Inl (ReapackError ''index version not found'')"
    using index_load_cases [where root = "Element ''index'' [] []" and ov = ?ov and loader = ?L
        and nm = "''repo''" and desc = "[]"] by simp
  have r3: "Index_load ?ov ?L ''repo''
        (Document 0 [] (Some (Element ''index'' [(''version'', ''zero'')] [])))
      = Inl (ReapackError ''index version not found'')"
    using index_load_cases [where root = "Element ''index'' [(''version'', ''zero'')] []"
        and ov = ?ov and loader = ?L and nm = "''repo''" and desc = "[]" and s = "''zero''"] a0
    by simp
  have r4: "Index_load ?ov ?L ''repo''
        (Document 0 [] (Some (Element ''index'' [(''version'', ''2'')] [])))
      = Inl (ReapackError ''index version is unsupported'')"
    using index_load_cases [where root = "Element ''index'' [(''version'', ''2'')] []"
        and ov = ?ov and loader = ?L and nm = "''repo''" and desc = "[]" and s = "''2''"] a2
    by simp
  have r5: "Index_load ?ov ?L ''repo''
        (Document 0 [] (Some (Element ''index'' [(''version'', ''1'')] [])))
      = Inr (Index_new ''repo'')"
    using index_load_cases [where root = "Element ''index'' [(''version'', ''1'')] []"
        and ov = ?ov and loader = ?L and nm = "''repo''" and desc = "[]" and s = "''1''"] a1
    by simp
  have r6: "Index_load ?ov ?L ''repo''
        (Document 0 [] (Some (Element ''index'' [(''version'', ''4294967297'')] [])))
      = Inr (Index_new ''repo'')"
    using index_load_cases [where root = "Element ''index'' [(''version'', ''4294967297'')] []"
        and ov = ?ov and loader = ?L and nm = "''repo''" and desc = "[]"
        and s = "''4294967297''"] a3
    by simp
  have big0: "INT_MAX < numeral_value ''4294967296''" by (simp add: atoi_eval)
  have a4: "atoi (\<lambda>s. 0) ''4294967296'' = 0"
    using index_load_cases [where ov = "\<lambda>s. 0" and s = "''4294967296''"] big0 by simp
  have r7: "Index_load (\<lambda>s. 0) ?L ''repo''
        (Document 0 [] (Some (Element ''index'' [(''version'', ''4294967296'')] [])))
      = Inl (ReapackError ''index version not found'')"
    using index_load_cases [where root = "Element ''index'' [(''version'', ''4294967296'')] []"
        and ov = "\<lambda>s. 0" and loader = ?L and nm = "''repo''" and desc = "[]"
        and s = "''4294967296''"] a4
    by simp
  from r1 r2 r3 r4 r5 big r6 big0 r7 show ?thesis by blast
qed

text \<open>
  The claim as the spec words it fails on a \<^verbatim>\<open>version\<close> attribute that is
  present, is not 1 and reads as 0: the document \<^verbatim>\<open><index version="0"/>\<close> is
  rejected with \<^verbatim>\<open>index version not found\<close>, not with
  \<^verbatim>\<open>index version is unsupported\<close>.
\<close>

theorem index_load_version_zero:
  "map_of (attributes (Element ''index'' [(''version'', ''0'')] [])) ''version'' = Some ''0''
   \<and> Index_load (\<lambda>s. 1) (\<lambda>root ri. Inr ri) ''repo''
        (Document 0 [] (Some (Element ''index'' [(''version'', ''0'')] [])))
      = Inl (ReapackError ''index version not found'')
   \<and> Index_load (\<lambda>s. 1) (\<lambda>root ri. Inr ri) ''repo''
        (Document 0 [] (Some (Element ''index'' [(''version'', ''0'')] [])))
      \<noteq> Inl (ReapackError ''index version is unsupported'')"
  by (simp add: Index_load_def Attribute_int_def atoi_eval)

section \<open>Properties of the resolution\<close>

lemma same_core_refl [simp]: "same_core tx tx"
  by (simp add: same_core_def)

lemma same_core_trans: "same_core a b \<Longrightarrow> same_core b c \<Longrightarrow> same_core a c"
  by (simp add: same_core_def)

lemma same_core_foldl:
  assumes "\<And>t x. same_core t (f t x)"
  shows "same_core tx (foldl f tx xs)"
proof (induction xs arbitrary: tx)
  case Nil
  show ?case by simp
next
  case (Cons x xs)
  have "same_core tx (f tx x)" by (rule assms)
  moreover have "same_core (f tx x) (foldl f (f tx x) xs)" by (rule Cons.IH)
  ultimately show ?case by (auto intro: same_core_trans)
qed

lemma same_core_push_task [simp]: "same_core tx (push_task t tx)"
  by (simp add: same_core_def push_task_def)

lemma same_core_addError [simp]: "same_core tx (addError e tx)"
  by (simp add: same_core_def addError_def)

lemma same_core_synchronize_package: "same_core tx (synchronize_package w opts tx pkg)"
  by (simp add: synchronize_package_def Let_def split: option.splits)

lemma same_core_collect_obsolete: "same_core tx (collect_obsolete ri tx e)"
  by (simp add: collect_obsolete_def same_core_def)

lemma same_core_run_callback: "same_core tx (run_callback w cb ri tx)"
proof (cases cb)
  case (SyncCallback opts r)
  let ?tx1 = "foldl (synchronize_package w opts) tx (Index_packages ri)"
  have a: "same_core tx ?tx1"
    by (rule same_core_foldl) (rule same_core_synchronize_package)
  have b: "same_core ?tx1 (foldl (collect_obsolete ri) ?tx1 es)" for es
    by (rule same_core_foldl) (rule same_core_collect_obsolete)
  show ?thesis
    using a b same_core_trans unfolding SyncCallback by (auto simp: Let_def)
qed

lemma same_core_loadIndex: "loadIndex w r tx = (e, ri, tx1) \<Longrightarrow> same_core tx tx1"
  by (auto simp: loadIndex_def same_core_def addError_def
      split: option.splits sum.splits error.splits)

lemma same_core_load_index: "same_core tx (snd (load_index w r cb tx))"
proof -
  obtain e ri tx1 where l: "loadIndex w r tx = (e, ri, tx1)"
    by (cases "loadIndex w r tx") auto
  then have c: "same_core tx tx1" by (rule same_core_loadIndex)
  show ?thesis
    using c same_core_run_callback [of tx1] l
    by (auto simp: load_index_def split: option.splits intro: same_core_trans)
qed

lemma allFilesExists_iff: "allFilesExists w ps = (\<forall>p\<in>set ps. fs_exists w p)"
  by (induction ps) auto

lemmas demo_defs = demo_v1_def demo_v2_def demo_pkg_def demo_old_pkg_def demo_index_def
  demo_entry_def demo_remote_def demo_opts_def demo_env_def fresh_env_def demo_tx_def
  Transaction_new_def registry_savepoint_def Registry_savepoint_def log_event_def

text \<open>
  Claim C2. When the registry has an entry for the package and the entry is
  pinned, the resolution of the package either leaves the queue as it is or
  queues one install task, and then of a version whose code is that of the
  installed version and some file of which is missing on disk: never of a
  version strictly newer than the installed one, whatever version the index
  offers as the latest.
\<close>

theorem synchronize_pinned_no_upgrade:
  assumes "Registry_getEntry (m_registry tx) pkg = Some e" and "pinned e"
  shows "m_nextQueue (synchronize_package w opts tx pkg) = m_nextQueue tx
       \<or> (\<exists>latest. lastVersion w pkg (bleedingEdge opts) (version e) = Some latest
             \<and> code latest = code (version e)
             \<and> \<not> version_less (version e) latest
             \<and> \<not> allFilesExists w (files latest)
             \<and> m_nextQueue (synchronize_package w opts tx pkg)
                 = m_nextQueue tx @ [InstallTask latest False (Some e) False])"
  using assms
  by (auto simp: synchronize_package_def Let_def entry_version_def entry_pinned_def
      version_eq_def version_less_def push_task_def split: option.splits)

theorem synchronize_pinned_no_upgrade_witness:
  "Registry_getEntry (m_registry demo_tx) demo_pkg = Some demo_entry
   \<and> pinned demo_entry
   \<and> lastVersion demo_env demo_pkg (bleedingEdge demo_opts) (version demo_entry) = Some demo_v2
   \<and> version_less (version demo_entry) demo_v2
   \<and> m_nextQueue (synchronize_package demo_env demo_opts demo_tx demo_pkg) = m_nextQueue demo_tx"
proof -
  have e: "Registry_getEntry (m_registry demo_tx) demo_pkg = Some demo_entry"
    by (simp add: Registry_getEntry_def demo_defs)
  have p: "pinned demo_entry" by (simp add: demo_entry_def)
  have l: "lastVersion demo_env demo_pkg (bleedingEdge demo_opts) (version demo_entry) = Some demo_v2"
    by (simp add: demo_env_def demo_pkg_def)
  have n: "version_less (version demo_entry) demo_v2"
    by (simp add: version_less_def demo_entry_def demo_v1_def demo_v2_def)
  have c: "code demo_v2 \<noteq> code (version demo_entry)"
    by (simp add: demo_entry_def demo_v1_def demo_v2_def)
  from synchronize_pinned_no_upgrade [OF e p, of demo_env demo_opts] l c
  have "m_nextQueue (synchronize_package demo_env demo_opts demo_tx demo_pkg) = m_nextQueue demo_tx"
    by auto
  with e p l n show ?thesis by simp
qed

text \<open>The same over a whole index: no install task that the callback of a
  synchronization queues replaces a pinned entry by a strictly newer
  version.\<close>

lemma synchronize_package_queue:
  "\<exists>new. m_nextQueue (synchronize_package w opts tx pkg) = m_nextQueue tx @ new
     \<and> list_all (\<lambda>t. \<not> upgrades_pinned t) new"
proof (cases "m_nextQueue (synchronize_package w opts tx pkg) = m_nextQueue tx")
  case True
  then show ?thesis by simp
next
  case False
  then obtain latest where
    q: "m_nextQueue (synchronize_package w opts tx pkg)
        = m_nextQueue tx @ [InstallTask latest False (Registry_getEntry (m_registry tx) pkg) False]"
    and c: "version_eq (entry_version (Registry_getEntry (m_registry tx) pkg)) latest
        \<or> \<not> entry_pinned (Registry_getEntry (m_registry tx) pkg)"
    by (auto simp: synchronize_package_def Let_def push_task_def split: option.splits if_splits)
  have "\<not> upgrades_pinned (InstallTask latest False (Registry_getEntry (m_registry tx) pkg) False)"
    using c
    by (cases "Registry_getEntry (m_registry tx) pkg")
      (auto simp: entry_version_def entry_pinned_def version_eq_def version_less_def)
  with q show ?thesis by simp
qed

lemma queue_grows_foldl:
  assumes "\<And>t x. \<exists>new. m_nextQueue (f t x) = m_nextQueue t @ new \<and> list_all P new"
  shows "\<exists>new. m_nextQueue (foldl f tx xs) = m_nextQueue tx @ new \<and> list_all P new"
proof (induction xs arbitrary: tx)
  case Nil
  show ?case by simp
next
  case (Cons x xs)
  obtain n1 where n1: "m_nextQueue (f tx x) = m_nextQueue tx @ n1" "list_all P n1"
    using assms by blast
  obtain n2 where n2: "m_nextQueue (foldl f (f tx x) xs) = m_nextQueue (f tx x) @ n2" "list_all P n2"
    using Cons.IH by blast
  from n1 n2 have "m_nextQueue (foldl f tx (x # xs)) = m_nextQueue tx @ (n1 @ n2)"
    "list_all P (n1 @ n2)" by simp_all
  then show ?case by blast
qed

lemma collect_obsolete_queue: "m_nextQueue (collect_obsolete ri tx e) = m_nextQueue tx"
  by (simp add: collect_obsolete_def)

lemma run_callback_no_pinned_upgrade:
  "\<exists>new. m_nextQueue (run_callback w cb ri tx) = m_nextQueue tx @ new
     \<and> list_all (\<lambda>t. \<not> upgrades_pinned t) new"
proof (cases cb)
  case (SyncCallback opts r)
  let ?P = "\<lambda>t. \<not> upgrades_pinned t"
  let ?tx1 = "foldl (synchronize_package w opts) tx (Index_packages ri)"
  have a: "\<exists>new. m_nextQueue ?tx1 = m_nextQueue tx @ new \<and> list_all ?P new"
    by (rule queue_grows_foldl) (rule synchronize_package_queue)
  have b: "m_nextQueue (foldl (collect_obsolete ri) t es) = m_nextQueue t" for es t
    by (induction es arbitrary: t) (simp_all add: collect_obsolete_queue)
  show ?thesis
    unfolding SyncCallback using a b by (simp add: Let_def)
qed

text \<open>
  Claim C3. When the registry has an entry for the package and the latest
  version that the index offers is the installed one (the two are equal as
  versions): if every file of that version exists on disk the resolution
  changes nothing, and queues no task; if one of its files is missing it
  queues exactly one install task, for that version, carrying the entry.
\<close>

theorem synchronize_same_version:
  assumes "Registry_getEntry (m_registry tx) pkg = Some e"
    and "lastVersion w pkg (bleedingEdge opts) (version e) = Some latest"
    and "version_eq (version e) latest"
  shows "((\<forall>p\<in>set (files latest). fs_exists w p)
            \<longrightarrow> synchronize_package w opts tx pkg = tx)
       \<and> ((\<exists>p\<in>set (files latest). \<not> fs_exists w p)
            \<longrightarrow> synchronize_package w opts tx pkg
                = tx\<lparr>m_nextQueue := m_nextQueue tx @ [InstallTask latest False (Some e) False]\<rparr>)"
  using assms
  by (auto simp: synchronize_package_def Let_def entry_version_def allFilesExists_iff
      push_task_def)

theorem synchronize_same_version_witness:
  "Registry_getEntry (m_registry demo_tx) demo_old_pkg = Some demo_entry
   \<and> lastVersion demo_env demo_old_pkg (bleedingEdge demo_opts) (version demo_entry) = Some demo_v1
   \<and> version_eq (version demo_entry) demo_v1
   \<and> synchronize_package (demo_env\<lparr>fs_exists := \<lambda>p. True\<rparr>) demo_opts demo_tx demo_old_pkg
       = demo_tx
   \<and> synchronize_package demo_env demo_opts demo_tx demo_old_pkg
       = demo_tx\<lparr>m_nextQueue := [InstallTask demo_v1 False (Some demo_entry) False]\<rparr>"
proof -
  let ?w = "demo_env\<lparr>fs_exists := \<lambda>p. True\<rparr>"
  have e: "Registry_getEntry (m_registry demo_tx) demo_old_pkg = Some demo_entry"
    by (simp add: Registry_getEntry_def demo_defs)
  have l: "lastVersion demo_env demo_old_pkg (bleedingEdge demo_opts) (version demo_entry) = Some demo_v1"
    by (simp add: demo_env_def demo_pkg_def demo_old_pkg_def)
  have l': "lastVersion ?w demo_old_pkg (bleedingEdge demo_opts) (version demo_entry) = Some demo_v1"
    by (simp add: demo_env_def demo_pkg_def demo_old_pkg_def)
  have q: "version_eq (version demo_entry) demo_v1"
    by (simp add: version_eq_def demo_entry_def)
  have present: "\<forall>p\<in>set (files demo_v1). fs_exists ?w p" by simp
  have missing: "\<exists>p\<in>set (files demo_v1). \<not> fs_exists demo_env p"
    by (simp add: demo_env_def demo_v1_def)
  have n: "m_nextQueue demo_tx = []" by (simp add: demo_defs)
  have a: "synchronize_package ?w demo_opts demo_tx demo_old_pkg = demo_tx"
    using synchronize_same_version [OF e l' q] present by blast
  have b: "synchronize_package demo_env demo_opts demo_tx demo_old_pkg
       = demo_tx\<lparr>m_nextQueue := [InstallTask demo_v1 False (Some demo_entry) False]\<rparr>"
    using synchronize_same_version [OF e l q] missing n by simp
  from e l q a b show ?thesis by simp
qed

section \<open>Properties of fetching an index\<close>

lemma pool_load_index: "m_threadPool (snd (load_index w r cb tx)) = m_threadPool tx"
  using same_core_load_index [of tx w r cb] by (simp add: same_core_def)

text \<open>
  Claim C4, as the code has it. \<^verbatim>\<open>synchronize\<close> of a remote that this
  transaction has synchronized already does nothing. \<^verbatim>\<open>synchronize\<close> of a
  remote that it has not synchronized yet records the remote and calls
  \<^verbatim>\<open>fetchIndex\<close> with the stale flag set: it pushes a download of the index
  to the pool and does nothing else, whatever the age of the manifest on
  disk. In \<^verbatim>\<open>fetchIndex\<close> itself, when the stale flag is not set and the
  modification time of the manifest is greater than now minus 7 * 24 * 3600
  seconds, the manifest is loaded and nothing is pushed to the pool; when the
  flag is set or the modification time is not greater (it is 0 for a manifest
  that is absent), a download is pushed and nothing else happens.
\<close>

theorem fetchIndex_staleness:
  "(remote_name r \<in> set (m_syncedRemotes tx) \<longrightarrow> synchronize w r force tx = (None, tx))
   \<and> (remote_name r \<notin> set (m_syncedRemotes tx)
      \<longrightarrow> synchronize w r force tx
          = (None, ThreadPool_push
                     (tx\<lparr>m_syncedRemotes := List.insert (remote_name r) (m_syncedRemotes tx)\<rparr>)
                     (IndexDownload r (Some (SyncCallback (sync_opts (m_config tx) r force) r)))))
   \<and> (\<not> stale \<and> FS_mtime w (pathFor w (remote_name r)) > now w - 7 * 24 * 3600
      \<longrightarrow> fetchIndex w r stale cb tx = load_index w r cb tx
          \<and> m_threadPool (snd (fetchIndex w r stale cb tx)) = m_threadPool tx)
   \<and> (stale \<or> FS_mtime w (pathFor w (remote_name r)) \<le> now w - 7 * 24 * 3600
      \<longrightarrow> fetchIndex w r stale cb tx = (None, ThreadPool_push tx (IndexDownload r cb)))"
proof -
  have z: "remote_name r \<in> set (m_syncedRemotes tx) \<longrightarrow> synchronize w r force tx = (None, tx)"
    by (simp add: synchronize_def)
  have a: "remote_name r \<notin> set (m_syncedRemotes tx)
      \<longrightarrow> synchronize w r force tx
          = (None, ThreadPool_push
                     (tx\<lparr>m_syncedRemotes := List.insert (remote_name r) (m_syncedRemotes tx)\<rparr>)
                     (IndexDownload r (Some (SyncCallback (sync_opts (m_config tx) r force) r))))"
    by (simp add: synchronize_def fetchIndex_def Let_def)
  have b: "\<not> stale \<and> FS_mtime w (pathFor w (remote_name r)) > now w - 7 * 24 * 3600
      \<longrightarrow> fetchIndex w r stale cb tx = load_index w r cb tx
          \<and> m_threadPool (snd (fetchIndex w r stale cb tx)) = m_threadPool tx"
    by (simp add: fetchIndex_def STALE_THRESHOLD_def Let_def pool_load_index)
  have c: "stale \<or> FS_mtime w (pathFor w (remote_name r)) \<le> now w - 7 * 24 * 3600
      \<longrightarrow> fetchIndex w r stale cb tx = (None, ThreadPool_push tx (IndexDownload r cb))"
    by (auto simp: fetchIndex_def STALE_THRESHOLD_def Let_def)
  from z a b c show ?thesis by blast
qed

lemma fresh_manifest:
  "now fresh_env - 7 * 24 * 3600 < FS_mtime fresh_env (pathFor fresh_env (remote_name demo_remote))"
  by (simp add: FS_mtime_def fresh_env_def demo_env_def)

lemma absent_manifest:
  "FS_mtime demo_env (pathFor demo_env (remote_name demo_remote)) \<le> now demo_env - 7 * 24 * 3600"
  by (simp add: FS_mtime_def demo_env_def)

text \<open>The instances: a remote that the transaction has synchronized already;
  a remote that it has not, with a manifest that was written a minute ago;
  \<^verbatim>\<open>fetchIndex\<close> without the stale flag on that manifest, which is loaded; and
  \<^verbatim>\<open>fetchIndex\<close> without the stale flag when there is no manifest.\<close>

theorem fetchIndex_staleness_witness:
  "synchronize fresh_env demo_remote None (demo_tx\<lparr>m_syncedRemotes := [''repo'']\<rparr>)
     = (None, demo_tx\<lparr>m_syncedRemotes := [''repo'']\<rparr>)
   \<and> remote_name demo_remote \<notin> set (m_syncedRemotes demo_tx)
   \<and> m_threadPool (snd (synchronize fresh_env demo_remote None demo_tx))
       = [IndexDownload demo_remote (Some (SyncCallback demo_opts demo_remote))]
   \<and> now fresh_env - 7 * 24 * 3600 < FS_mtime fresh_env (pathFor fresh_env (remote_name demo_remote))
   \<and> m_threadPool (snd (fetchIndex fresh_env demo_remote False None demo_tx)) = []
   \<and> m_indexes (snd (fetchIndex fresh_env demo_remote False None demo_tx))
       = [(''repo'', demo_index)]
   \<and> FS_mtime demo_env (pathFor demo_env (remote_name demo_remote)) \<le> now demo_env - 7 * 24 * 3600
   \<and> m_threadPool (snd (fetchIndex demo_env demo_remote False None demo_tx))
       = [IndexDownload demo_remote None]"
proof -
  have s: "remote_name demo_remote \<notin> set (m_syncedRemotes demo_tx)"
    by (simp add: demo_defs)
  have y: "synchronize fresh_env demo_remote None (demo_tx\<lparr>m_syncedRemotes := [''repo'']\<rparr>)
     = (None, demo_tx\<lparr>m_syncedRemotes := [''repo'']\<rparr>)"
    using fetchIndex_staleness [where r = demo_remote and w = fresh_env and force = None
        and tx = "demo_tx\<lparr>m_syncedRemotes := [''repo'']\<rparr>"]
    by (simp add: demo_remote_def)
  have p: "m_threadPool demo_tx = []" by (simp add: demo_defs)
  have o: "sync_opts (m_config demo_tx) demo_remote None = demo_opts"
    by (simp add: sync_opts_def demo_defs)
  have a: "m_threadPool (snd (synchronize fresh_env demo_remote None demo_tx))
       = [IndexDownload demo_remote (Some (SyncCallback demo_opts demo_remote))]"
    using fetchIndex_staleness [where r = demo_remote and tx = demo_tx and w = fresh_env
        and force = None] s p o by (simp add: ThreadPool_push_def log_event_def)
  have b: "m_threadPool (snd (fetchIndex fresh_env demo_remote False None demo_tx)) = []"
  proof -
    from fetchIndex_staleness [where r = demo_remote and tx = demo_tx and w = fresh_env
        and stale = False and cb = None and force = None] fresh_manifest
    have "m_threadPool (snd (fetchIndex fresh_env demo_remote False None demo_tx))
        = m_threadPool demo_tx" by blast
    with p show ?thesis by simp
  qed
  have c: "m_threadPool (snd (fetchIndex demo_env demo_remote False None demo_tx))
       = [IndexDownload demo_remote None]"
  proof -
    from fetchIndex_staleness [where r = demo_remote and tx = demo_tx and w = demo_env
        and stale = False and cb = None and force = None] absent_manifest
    have "fetchIndex demo_env demo_remote False None demo_tx
        = (None, ThreadPool_push demo_tx (IndexDownload demo_remote None))"
      by blast
    with p show ?thesis by (simp add: ThreadPool_push_def log_event_def)
  qed
  have l: "m_indexes (snd (fetchIndex fresh_env demo_remote False None demo_tx))
       = [(''repo'', demo_index)]"
    by code_simp
  from y s a fresh_manifest b l absent_manifest c show ?thesis by blast
qed

text \<open>
  The claim as the spec words it fails: with a manifest on disk that was
  written a minute ago, \<^verbatim>\<open>synchronize\<close> of the remote pushes a download of the
  index to the pool, which was empty, and loads no index.
\<close>

theorem synchronize_downloads_fresh_manifest:
  "now fresh_env - 7 * 24 * 3600 < FS_mtime fresh_env (pathFor fresh_env (remote_name demo_remote))
   \<and> m_threadPool demo_tx = []
   \<and> m_threadPool (snd (synchronize fresh_env demo_remote None demo_tx))
       = [IndexDownload demo_remote (Some (SyncCallback demo_opts demo_remote))]
   \<and> m_indexes (snd (synchronize fresh_env demo_remote None demo_tx)) = []"
  using fresh_manifest
  by (simp add: synchronize_def fetchIndex_def ThreadPool_push_def Let_def sync_opts_def
      STALE_THRESHOLD_def demo_defs)

section \<open>Properties of running the tasks\<close>

lemma advances_append:
  "advances s (a @ b) = (case advances s a of None \<Rightarrow> None | Some s1 \<Rightarrow> advances s1 b)"
  by (induction a arbitrary: s) (auto split: option.splits)

lemma stepsI:
  "trace tx1 = trace tx @ new \<Longrightarrow> advances (phase_of tx opn) new = Some (phase_of tx1 opn1)
    \<Longrightarrow> steps tx opn tx1 opn1"
  by (simp add: steps_def)

lemma stepsE:
  assumes "steps tx opn tx1 opn1"
  obtains new where "trace tx1 = trace tx @ new"
    and "advances (phase_of tx opn) new = Some (phase_of tx1 opn1)"
proof -
  let ?new = "drop (length (trace tx)) (trace tx1)"
  from assms have "take (length (trace tx)) (trace tx1) = trace tx"
    and a: "advances (phase_of tx opn) ?new = Some (phase_of tx1 opn1)"
    by (simp_all add: steps_def)
  then have "trace tx1 = trace tx @ ?new" by (metis append_take_drop_id)
  then show thesis using a by (rule that)
qed

lemma steps_refl [simp]: "steps tx opn tx opn"
  by (simp add: steps_def)

lemma steps_trans:
  assumes "steps a o1 b o2" and "steps b o2 c o3"
  shows "steps a o1 c o3"
proof -
  from assms(1) obtain n1 where n1: "trace b = trace a @ n1"
    "advances (phase_of a o1) n1 = Some (phase_of b o2)" by (rule stepsE)
  from assms(2) obtain n2 where n2: "trace c = trace b @ n2"
    "advances (phase_of b o2) n2 = Some (phase_of c o3)" by (rule stepsE)
  show ?thesis
  proof (rule stepsI)
    show "trace c = trace a @ (n1 @ n2)" using n1 n2 by simp
    show "advances (phase_of a o1) (n1 @ n2) = Some (phase_of c o3)"
      using n1 n2 by (simp add: advances_append)
  qed
qed

text \<open>A state that differs only outside the log, the running tasks and the
  pool is in the same phase.\<close>

lemma steps_same:
  "trace b = trace a \<Longrightarrow> m_runningTasks b = m_runningTasks a
    \<Longrightarrow> m_threadPool b = m_threadPool a \<Longrightarrow> steps a opn b opn"
  by (simp add: steps_def phase_of_def)

lemma steps_savepoint:
  "m_runningTasks tx = [] \<Longrightarrow> steps tx False (registry_savepoint tx) True"
  by (rule stepsI [where new = "[RegSavepoint]"])
    (simp_all add: registry_savepoint_def log_event_def phase_of_def)

lemma steps_restore: "steps tx True (registry_restore tx) False"
  by (rule stepsI [where new = "[RegRestore]"])
    (simp_all add: registry_restore_def log_event_def phase_of_def)

lemma steps_commit:
  "m_runningTasks tx = [] \<Longrightarrow> steps tx False (registry_commit tx) False"
  by (rule stepsI [where new = "[RegCommit]"])
    (simp_all add: registry_commit_def log_event_def phase_of_def)

lemma steps_push: "steps tx opn (ThreadPool_push tx j) opn"
  by (rule stepsI [where new = "[PoolPush j]"])
    (simp_all add: ThreadPool_push_def log_event_def phase_of_def)

lemma steps_foldl:
  assumes "\<And>t x. steps t opn (f t x) opn"
  shows "steps tx opn (foldl f tx xs) opn"
proof (induction xs arbitrary: tx)
  case Nil
  show ?case by simp
next
  case (Cons x xs)
  have "steps tx opn (f tx x) opn" by (rule assms)
  moreover have "steps (f tx x) opn (foldl f (f tx x) xs) opn" by (rule Cons.IH)
  ultimately have "steps tx opn (foldl f (f tx x) xs) opn" by (rule steps_trans)
  then show ?case by simp
qed

lemma steps_pushes: "steps tx opn (foldl ThreadPool_push tx js) opn"
  by (rule steps_foldl) (rule steps_push)

lemma running_pushes [simp]: "m_runningTasks (foldl ThreadPool_push tx js) = m_runningTasks tx"
  by (induction js arbitrary: tx) (simp_all add: ThreadPool_push_def log_event_def)

lemma steps_start_task: "steps tx True (start_task w tx t) True"
proof -
  obtain ok reg jobs where r: "task_start w t (current (m_registry tx)) = (ok, reg, jobs)"
    by (cases "task_start w t (current (m_registry tx))") auto
  let ?tx0 = "tx\<lparr>m_registry := (m_registry tx)\<lparr>current := reg\<rparr>\<rparr>"
  let ?tx1 = "foldl ThreadPool_push ?tx0 jobs"
  let ?tx2 = "log_event (TaskStart t ok) ?tx1"
  let ?tx3 = "if ok then ?tx2\<lparr>m_runningTasks := m_runningTasks ?tx2 @ [t]\<rparr> else ?tx2"
  have a: "steps tx True ?tx0 True" by (rule steps_same) simp_all
  have b: "steps ?tx0 True ?tx1 True" by (rule steps_pushes)
  have c: "steps ?tx1 True ?tx3 True"
    by (rule stepsI [where new = "[TaskStart t ok]"])
      (simp_all add: log_event_def phase_of_def)
  have "start_task w tx t = ?tx3"
    by (simp add: start_task_def Task_start_def r)
  moreover have "steps tx True ?tx3 True"
    by (rule steps_trans [OF a]) (rule steps_trans [OF b c])
  ultimately show ?thesis by simp
qed

lemma steps_start_all: "steps tx True (foldl (start_task w) tx q) True"
  by (rule steps_foldl) (rule steps_start_task)

lemma settle_task_trace:
  "trace (settle_task w tx t)
     = trace tx @ [if m_isCancelled tx then TaskRollback t else TaskCommit t]"
  by (simp add: settle_task_def Task_rollback_def Task_commit_def log_event_def
      split: prod.splits)

lemma settle_task_frame:
  "m_threadPool (settle_task w tx t) = m_threadPool tx
   \<and> m_isCancelled (settle_task w tx t) = m_isCancelled tx
   \<and> m_runningTasks (settle_task w tx t) = m_runningTasks tx
   \<and> m_taskQueues (settle_task w tx t) = m_taskQueues tx"
  by (simp add: settle_task_def Task_rollback_def Task_commit_def log_event_def
      split: prod.splits)

lemma settle_all:
  assumes "m_threadPool tx = []"
  shows "\<exists>new. trace (foldl (settle_task w) tx ts) = trace tx @ new
      \<and> advances (ts @ rest, 0, False) new = Some (rest, 0, False)
      \<and> m_threadPool (foldl (settle_task w) tx ts) = []"
  using assms
proof (induction ts arbitrary: tx)
  case Nil
  then show ?case by simp
next
  case (Cons t ts)
  let ?tx1 = "settle_task w tx t"
  let ?e = "if m_isCancelled tx then TaskRollback t else TaskCommit t"
  have p: "m_threadPool ?tx1 = []" using Cons.prems by (simp add: settle_task_frame)
  from Cons.IH [OF p] obtain new where
    n: "trace (foldl (settle_task w) ?tx1 ts) = trace ?tx1 @ new"
       "advances (ts @ rest, 0, False) new = Some (rest, 0, False)"
       "m_threadPool (foldl (settle_task w) ?tx1 ts) = []"
    by blast
  have "trace (foldl (settle_task w) tx (t # ts)) = trace tx @ (?e # new)"
    using n(1) by (simp add: settle_task_trace)
  moreover have "advances ((t # ts) @ rest, 0, False) (?e # new) = Some (rest, 0, False)"
    using n(2) by simp
  ultimately show ?case using n(3) by (intro exI [of _ "?e # new"]) simp
qed

lemma commitTasks_busy: "\<not> ThreadPool_idle tx \<Longrightarrow> commitTasks w tx = (False, tx)"
  by (simp add: commitTasks_def)

lemma commitTasks_idle:
  assumes "ThreadPool_idle tx"
  obtains tx1 where "commitTasks w tx = (True, tx1)"
    and "steps tx False tx1 False"
    and "m_runningTasks tx1 = []"
    and "ThreadPool_idle tx1"
    and "trace tx1 = trace (foldl (settle_task w) tx (m_runningTasks tx))"
proof -
  let ?tx1 = "foldl (settle_task w) tx (m_runningTasks tx)"
  let ?tx2 = "?tx1\<lparr>m_runningTasks := []\<rparr>"
  from assms have p: "m_threadPool tx = []" by (simp add: ThreadPool_idle_def)
  from settle_all [OF p, of w "m_runningTasks tx" "[]"] obtain new where
    n: "trace ?tx1 = trace tx @ new"
       "advances (m_runningTasks tx, 0, False) new = Some ([], 0, False)"
       "m_threadPool ?tx1 = []"
    by auto
  have c: "commitTasks w tx = (True, ?tx2)" using assms by (simp add: commitTasks_def)
  have s: "steps tx False ?tx2 False"
    by (rule stepsI [where new = new]) (use n p in \<open>simp_all add: phase_of_def\<close>)
  show thesis
    by (rule that [OF c s]) (simp_all add: ThreadPool_idle_def n(3))
qed

lemma registerSections_trace:
  "\<exists>new. trace (registerSections f reg l e ss tx) = trace tx @ new
     \<and> (\<forall>s. advances s new = Some s)
     \<and> m_runningTasks (registerSections f reg l e ss tx) = m_runningTasks tx
     \<and> m_threadPool (registerSections f reg l e ss tx) = m_threadPool tx
     \<and> m_inhibited (registerSections f reg l e ss tx) = m_inhibited tx"
proof (induction ss arbitrary: e tx)
  case Nil
  show ?case by simp
next
  case (Cons s ss)
  let ?c = "l \<and> ss = []"
  let ?h = "HostCall (add reg) s (path (reg_file reg)) ?c"
  let ?tx1 = "log_event ?h tx"
  let ?tx2 = "addError (''This script could not be registered in REAPER.'',
                    join (path (reg_file reg))) ?tx1"
  let ?fail = "f (add reg) s (path (reg_file reg)) ?c = 0 \<and> e"
  let ?next = "if ?fail then registerSections f reg l False ss ?tx2
               else registerSections f reg l e ss ?tx1"
  have eq: "registerSections f reg l e (s # ss) tx = ?next"
    by (simp add: Let_def)
  obtain e1 tx1 where d: "?next = registerSections f reg l e1 ss tx1"
    and t: "trace tx1 = trace tx @ [?h]" and r: "m_runningTasks tx1 = m_runningTasks tx"
    and p: "m_threadPool tx1 = m_threadPool tx" and i: "m_inhibited tx1 = m_inhibited tx"
    by (cases ?fail) (simp_all add: log_event_def addError_def)
  from Cons.IH [of e1 tx1] obtain new where
    n: "trace (registerSections f reg l e1 ss tx1) = trace tx1 @ new"
       "\<forall>s. advances s new = Some s"
       "m_runningTasks (registerSections f reg l e1 ss tx1) = m_runningTasks tx1"
       "m_threadPool (registerSections f reg l e1 ss tx1) = m_threadPool tx1"
       "m_inhibited (registerSections f reg l e1 ss tx1) = m_inhibited tx1"
    by blast
  have a: "\<forall>s. advances s (?h # new) = Some s"
  proof
    fix s :: phase
    obtain run n opn where s: "s = (run, n, opn)" by (cases s) auto
    show "advances s (?h # new) = Some s" using n(2) by (simp add: s)
  qed
  show ?case
    unfolding eq d using n t r p i a
    by (intro exI [of _ "?h # new"]) simp
qed

lemma registerScript_trace:
  "\<exists>new. trace (registerScript w reg l tx) = trace tx @ new
     \<and> (\<forall>s. advances s new = Some s)
     \<and> m_runningTasks (registerScript w reg l tx) = m_runningTasks tx
     \<and> m_threadPool (registerScript w reg l tx) = m_threadPool tx
     \<and> m_inhibited (registerScript w reg l tx) = m_inhibited tx"
proof (cases "AddRemoveReaScript w")
  case None
  then show ?thesis by (simp add: registerScript_def)
next
  case (Some f)
  show ?thesis
  proof (cases "sections (reg_file reg) = []")
    case True
    then show ?thesis by (simp add: registerScript_def Some)
  next
    case False
    then show ?thesis
      using registerSections_trace by (simp add: registerScript_def Some)
  qed
qed

lemma registerQueued_trace:
  "\<exists>new. trace (registerQueued w q tx) = trace tx @ new
     \<and> (\<forall>s. advances s new = Some s)
     \<and> m_runningTasks (registerQueued w q tx) = m_runningTasks tx
     \<and> m_threadPool (registerQueued w q tx) = m_threadPool tx"
proof (induction q arbitrary: tx)
  case Nil
  show ?case by simp
next
  case (Cons reg rest)
  show ?case
  proof (cases "add reg \<and> remote (entry reg) \<in> set (m_inhibited tx)")
    case True
    then show ?thesis by simp
  next
    case False
    let ?tx1 = "case file_type (reg_file reg) of
             ScriptType \<Rightarrow> registerScript w reg (rest = []) tx
           | _ \<Rightarrow> tx"
    have "\<exists>new. trace ?tx1 = trace tx @ new \<and> (\<forall>s. advances s new = Some s)
        \<and> m_runningTasks ?tx1 = m_runningTasks tx \<and> m_threadPool ?tx1 = m_threadPool tx"
      using registerScript_trace [of w reg "rest = []" tx]
      by (cases "file_type (reg_file reg)") auto
    then obtain n1 where n1: "trace ?tx1 = trace tx @ n1" "\<forall>s. advances s n1 = Some s"
      "m_runningTasks ?tx1 = m_runningTasks tx" "m_threadPool ?tx1 = m_threadPool tx"
      by blast
    from Cons.IH [of ?tx1] obtain n2 where
      n2: "trace (registerQueued w rest ?tx1) = trace ?tx1 @ n2" "\<forall>s. advances s n2 = Some s"
        "m_runningTasks (registerQueued w rest ?tx1) = m_runningTasks ?tx1"
        "m_threadPool (registerQueued w rest ?tx1) = m_threadPool ?tx1"
      by blast
    have eq: "registerQueued w (reg # rest) tx = registerQueued w rest ?tx1"
      using False by auto
    have "\<forall>s. advances s (n1 @ n2) = Some s"
      using n1(2) n2(2) by (simp add: advances_append)
    then show ?thesis
      unfolding eq using n1 n2 by (intro exI [of _ "n1 @ n2"]) simp
  qed
qed

lemma steps_registerQueued: "steps tx opn (registerQueued w q tx) opn"
proof -
  from registerQueued_trace [of w q tx] obtain new where
    n: "trace (registerQueued w q tx) = trace tx @ new" "\<forall>s. advances s new = Some s"
      "m_runningTasks (registerQueued w q tx) = m_runningTasks tx"
      "m_threadPool (registerQueued w q tx) = m_threadPool tx"
    by blast
  show ?thesis
    by (rule stepsI [where new = new]) (use n in \<open>simp_all add: phase_of_def\<close>)
qed

lemma steps_finish: "steps tx opn (finish tx) opn"
  by (rule stepsI [where new = "[OnFinish, CleanupHandler]"])
    (simp_all add: finish_def log_event_def phase_of_def)

lemma steps_promptObsolete: "steps tx opn (promptObsolete_step w tx) opn"
  by (rule steps_same)
    (simp_all add: promptObsolete_step_def Let_def split: prod.splits)

lemma steps_taskQueues: "steps tx opn (tx\<lparr>m_taskQueues := qs\<rparr>) opn"
  by (rule steps_same) simp_all

lemma runQueues_phases:
  "m_runningTasks tx = [] \<Longrightarrow> steps tx False (snd (runQueues w qs tx)) False"
proof (induction qs arbitrary: tx)
  case Nil
  let ?tx1 = "registry_commit tx"
  let ?tx2 = "registerQueued w (m_regQueue ?tx1) ?tx1"
  have a: "steps tx False ?tx1 False" using Nil by (rule steps_commit)
  have b: "steps ?tx1 False ?tx2 False" by (rule steps_registerQueued)
  have c: "steps ?tx2 False (finish ?tx2) False" by (rule steps_finish)
  have "steps tx False (finish ?tx2) False"
    by (rule steps_trans [OF a]) (rule steps_trans [OF b c])
  then show ?case by (simp add: Let_def)
next
  case (Cons q rest)
  let ?tx1 = "registry_savepoint tx"
  let ?tx2 = "foldl (start_task w) ?tx1 q"
  let ?tx3 = "(registry_restore ?tx2)\<lparr>m_taskQueues := rest\<rparr>"
  have a: "steps tx False ?tx1 True" using Cons.prems by (rule steps_savepoint)
  have b: "steps ?tx1 True ?tx2 True" by (rule steps_start_all)
  have c: "steps ?tx2 True (registry_restore ?tx2) False" by (rule steps_restore)
  have d: "steps (registry_restore ?tx2) False ?tx3 False" by (rule steps_taskQueues)
  have s3: "steps tx False ?tx3 False"
    by (rule steps_trans [OF a]) (rule steps_trans [OF b], rule steps_trans [OF c d])
  show ?case
  proof (cases "ThreadPool_idle ?tx3")
    case False
    then have "runQueues w (q # rest) tx = (False, ?tx3)"
      by (simp add: Let_def commitTasks_busy)
    with s3 show ?thesis by simp
  next
    case True
    from commitTasks_idle [OF True, of w] obtain tx4 where
      c: "commitTasks w ?tx3 = (True, tx4)" and s4: "steps ?tx3 False tx4 False"
      and r: "m_runningTasks tx4 = []"
      by blast
    from c have eq: "runQueues w (q # rest) tx = runQueues w rest tx4"
      by (simp add: Let_def)
    have "steps tx4 False (snd (runQueues w rest tx4)) False"
      using r by (rule Cons.IH)
    with s3 s4 show ?thesis unfolding eq by (blast intro: steps_trans)
  qed
qed

lemma runQueues_suspends_when_busy:
  "fst (runQueues w qs tx) \<or> \<not> ThreadPool_idle (snd (runQueues w qs tx))"
proof (induction qs arbitrary: tx)
  case Nil
  show ?case by (simp add: Let_def)
next
  case (Cons q rest)
  let ?tx3 = "(registry_restore (foldl (start_task w) (registry_savepoint tx) q))\<lparr>m_taskQueues := rest\<rparr>"
  show ?case
  proof (cases "ThreadPool_idle ?tx3")
    case False
    then have "runQueues w (q # rest) tx = (False, ?tx3)"
      by (simp add: Let_def commitTasks_busy)
    with False show ?thesis by simp
  next
    case True
    from commitTasks_idle [OF True, of w] obtain tx4 where
      "commitTasks w ?tx3 = (True, tx4)" by blast
    then have eq: "runQueues w (q # rest) tx = runQueues w rest tx4"
      by (simp add: Let_def)
    show ?thesis unfolding eq by (rule Cons.IH)
  qed
qed

text \<open>
  Claim C5, as the code has it. In every call of \<^verbatim>\<open>runTasks\<close> the log grows
  by events that the phases accept: the savepoint of a queue is opened only
  when no started task is unsettled; tasks are started only under that
  savepoint; the savepoint is restored as soon as the tasks of the queue have
  been started, whether or not they have finished; a task is committed or
  rolled back only after the restore and only when the pool is idle; the
  registry is committed only when no task is unsettled. So the next queue is
  not begun before every task of this one has settled. And \<^verbatim>\<open>runTasks\<close>
  returns false only when the pool is busy.
\<close>

theorem runTasks_phases:
  "steps tx False (snd (runTasks w tx)) False
   \<and> (fst (runTasks w tx) \<or> \<not> ThreadPool_idle (snd (runTasks w tx)))"
proof -
  let ?tx1 = "if m_nextQueue tx \<noteq> []
                 then tx\<lparr>m_taskQueues := m_taskQueues tx @ [m_nextQueue tx], m_nextQueue := []\<rparr>
                 else tx"
  have s1: "steps tx False ?tx1 False" by (rule steps_same) simp_all
  show ?thesis
  proof (cases "ThreadPool_idle ?tx1")
    case False
    then have "runTasks w tx = (False, ?tx1)"
      by (simp add: runTasks_def Let_def commitTasks_busy)
    with s1 False show ?thesis by simp
  next
    case True
    from commitTasks_idle [OF True, of w] obtain tx2 where
      c: "commitTasks w ?tx1 = (True, tx2)" and s2: "steps ?tx1 False tx2 False"
      and r: "m_runningTasks tx2 = []"
      by blast
    have s12: "steps tx False tx2 False" by (rule steps_trans [OF s1 s2])
    show ?thesis
    proof (cases "m_isCancelled tx2")
      case True
      then have "runTasks w tx = (True, finish tx2)"
        using c by (simp add: runTasks_def Let_def)
      moreover have "steps tx False (finish tx2) False"
        by (rule steps_trans [OF s12]) (rule steps_finish)
      ultimately show ?thesis by simp
    next
      case False
      let ?tx3 = "promptObsolete_step w tx2"
      have eq: "runTasks w tx = runQueues w (m_taskQueues ?tx3) ?tx3"
        using c False by (simp add: runTasks_def Let_def)
      have s3: "steps tx2 False ?tx3 False" by (rule steps_promptObsolete)
      have "m_runningTasks ?tx3 = []"
        using r by (simp add: promptObsolete_step_def Let_def split: prod.splits)
      then have "steps ?tx3 False (snd (runQueues w (m_taskQueues ?tx3) ?tx3)) False"
        by (rule runQueues_phases)
      with s12 s3 have "steps tx False (snd (runQueues w (m_taskQueues ?tx3) ?tx3)) False"
        by (blast intro: steps_trans)
      then show ?thesis
        unfolding eq using runQueues_suspends_when_busy by simp
    qed
  qed
qed

lemma queued_phase:
  "advances (phase_of queued_tx False)
     [RegSavepoint, PoolPush (TaskJob [''Scripts'', ''a.lua'']), TaskStart demo_task True, RegRestore]
     = Some ([demo_task], 1, False)"
  by code_simp

theorem runTasks_phases_witness:
  "steps queued_tx False (snd (runTasks busy_env queued_tx)) False
   \<and> drop (length (trace queued_tx)) (trace (snd (runTasks busy_env queued_tx)))
       = [RegSavepoint, PoolPush (TaskJob [''Scripts'', ''a.lua'']), TaskStart demo_task True,
          RegRestore]
   \<and> phase_of (snd (runTasks busy_env queued_tx)) False = ([demo_task], 1, False)
   \<and> fst (runTasks busy_env queued_tx) = False
   \<and> \<not> ThreadPool_idle (snd (runTasks busy_env queued_tx))"
proof -
  have a: "steps queued_tx False (snd (runTasks busy_env queued_tx)) False"
    and d: "fst (runTasks busy_env queued_tx) \<or> \<not> ThreadPool_idle (snd (runTasks busy_env queued_tx))"
    using runTasks_phases [of queued_tx busy_env] by simp_all
  have b: "drop (length (trace queued_tx)) (trace (snd (runTasks busy_env queued_tx)))
       = [RegSavepoint, PoolPush (TaskJob [''Scripts'', ''a.lua'']), TaskStart demo_task True,
          RegRestore]"
    by code_simp
  have c: "phase_of (snd (runTasks busy_env queued_tx)) False = ([demo_task], 1, False)"
    using a queued_phase unfolding steps_def b by simp
  have e: "fst (runTasks busy_env queued_tx) = False" by code_simp
  from a b c d e show ?thesis by simp
qed

text \<open>
  The claim as the spec words it fails: a transaction with one install task
  queued, in a world where a task that starts pushes a download, leaves
  \<^verbatim>\<open>runTasks\<close> with the savepoint of the queue restored while the download is
  in the pool and the task is neither committed nor rolled back.
\<close>

theorem restore_before_tasks_settle:
  "fst (runTasks busy_env queued_tx) = False
   \<and> trace (snd (runTasks busy_env queued_tx))
       = [RegSavepoint, RegSavepoint, PoolPush (TaskJob [''Scripts'', ''a.lua'']),
          TaskStart demo_task True, RegRestore]
   \<and> m_threadPool (snd (runTasks busy_env queued_tx)) = [TaskJob [''Scripts'', ''a.lua'']]
   \<and> m_runningTasks (snd (runTasks busy_env queued_tx)) = [demo_task]
   \<and> \<not> restores_when_idle (length (m_threadPool queued_tx))
         (drop (length (trace queued_tx)) (trace (snd (runTasks busy_env queued_tx))))"
  by code_simp

section \<open>Properties of a cancelled transaction\<close>

lemma quietI:
  "m_isCancelled b \<Longrightarrow> committed (m_registry b) = committed (m_registry a)
    \<Longrightarrow> trace b = trace a @ new \<Longrightarrow> list_all (\<lambda>e. \<not> commits e) new \<Longrightarrow> quiet a b"
  by (simp add: quiet_def)

lemma quietE:
  assumes "quiet a b"
  obtains new where "m_isCancelled b" and "committed (m_registry b) = committed (m_registry a)"
    and "trace b = trace a @ new" and "list_all (\<lambda>e. \<not> commits e) new"
proof -
  let ?new = "drop (length (trace a)) (trace b)"
  from assms have c: "m_isCancelled b" "committed (m_registry b) = committed (m_registry a)"
    and t: "take (length (trace a)) (trace b) = trace a"
    and l: "list_all (\<lambda>e. \<not> commits e) ?new"
    by (simp_all add: quiet_def)
  from t have "trace b = trace a @ ?new" by (metis append_take_drop_id)
  with c show thesis using l by (rule that)
qed

lemma quiet_refl: "m_isCancelled a \<Longrightarrow> quiet a a"
  by (simp add: quiet_def)

lemma quiet_trans:
  assumes "quiet a b" and "quiet b c"
  shows "quiet a c"
proof -
  from assms(1) obtain n1 where 1: "committed (m_registry b) = committed (m_registry a)"
    "trace b = trace a @ n1" "list_all (\<lambda>e. \<not> commits e) n1" by (rule quietE)
  from assms(2) obtain n2 where 2: "m_isCancelled c"
    "committed (m_registry c) = committed (m_registry b)"
    "trace c = trace b @ n2" "list_all (\<lambda>e. \<not> commits e) n2" by (rule quietE)
  show ?thesis
    by (rule quietI [where new = "n1 @ n2"]) (use 1 2 in simp_all)
qed

lemma quiet_same_core: "m_isCancelled a \<Longrightarrow> same_core a b \<Longrightarrow> quiet a b"
  by (simp add: quiet_def same_core_def)

lemma quiet_onAbort: "quiet tx (onAbort tx)"
  by (simp add: quiet_def onAbort_def)

lemma quiet_push: "m_isCancelled tx \<Longrightarrow> quiet tx (ThreadPool_push tx j)"
  by (rule quietI [where new = "[PoolPush j]"])
    (simp_all add: ThreadPool_push_def log_event_def)

lemma quiet_load_index: "m_isCancelled tx \<Longrightarrow> quiet tx (snd (load_index w r cb tx))"
  by (rule quiet_same_core) (simp_all add: same_core_load_index)

lemma quiet_fetchIndex: "m_isCancelled tx \<Longrightarrow> quiet tx (snd (fetchIndex w r stale cb tx))"
  by (simp add: fetchIndex_def Let_def quiet_load_index quiet_push)

lemma quiet_synchronize:
  assumes "m_isCancelled tx"
  shows "quiet tx (snd (synchronize w r force tx))"
proof (cases "remote_name r \<in> set (m_syncedRemotes tx)")
  case True
  then show ?thesis using assms by (simp add: synchronize_def quiet_refl)
next
  case False
  let ?tx1 = "tx\<lparr>m_syncedRemotes := List.insert (remote_name r) (m_syncedRemotes tx)\<rparr>"
  have a: "quiet tx ?tx1" using assms by (simp add: quiet_def)
  have "m_isCancelled ?tx1" using assms by simp
  then have "quiet ?tx1 (snd (fetchIndex w r True
      (Some (SyncCallback (sync_opts (m_config ?tx1) r force) r)) ?tx1))"
    by (rule quiet_fetchIndex)
  with a have "quiet tx (snd (fetchIndex w r True
      (Some (SyncCallback (sync_opts (m_config ?tx1) r force) r)) ?tx1))"
    by (rule quiet_trans)
  then show ?thesis using False by (simp add: synchronize_def Let_def)
qed

lemma rollback_all:
  assumes "m_isCancelled tx"
  shows "m_isCancelled (foldl (settle_task w) tx ts)
      \<and> committed (m_registry (foldl (settle_task w) tx ts)) = committed (m_registry tx)
      \<and> trace (foldl (settle_task w) tx ts) = trace tx @ map TaskRollback ts"
  using assms
proof (induction ts arbitrary: tx)
  case Nil
  then show ?case by simp
next
  case (Cons t ts)
  let ?tx1 = "settle_task w tx t"
  have c: "m_isCancelled ?tx1" using Cons.prems by (simp add: settle_task_frame)
  have r: "committed (m_registry ?tx1) = committed (m_registry tx)"
    using Cons.prems by (simp add: settle_task_def Task_rollback_def log_event_def)
  have t: "trace ?tx1 = trace tx @ [TaskRollback t]"
    using Cons.prems by (simp add: settle_task_trace)
  from Cons.IH [OF c] r t show ?case by simp
qed

text \<open>A cancelled transaction with an idle pool rolls every running task
  back and finishes.\<close>

lemma runTasks_cancelled_idle:
  assumes "m_isCancelled tx" and "ThreadPool_idle tx"
  shows "fst (runTasks w tx) = True
      \<and> trace (snd (runTasks w tx))
          = trace tx @ map TaskRollback (m_runningTasks tx) @ [OnFinish, CleanupHandler]
      \<and> m_runningTasks (snd (runTasks w tx)) = []
      \<and> m_isCancelled (snd (runTasks w tx))
      \<and> committed (m_registry (snd (runTasks w tx))) = committed (m_registry tx)"
proof -
  let ?tx1 = "if m_nextQueue tx \<noteq> []
                 then tx\<lparr>m_taskQueues := m_taskQueues tx @ [m_nextQueue tx], m_nextQueue := []\<rparr>
                 else tx"
  let ?tx2 = "(foldl (settle_task w) ?tx1 (m_runningTasks ?tx1))\<lparr>m_runningTasks := []\<rparr>"
  have i: "ThreadPool_idle ?tx1" using assms(2) by (simp add: ThreadPool_idle_def)
  have c1: "m_isCancelled ?tx1" using assms(1) by simp
  have c: "commitTasks w ?tx1 = (True, ?tx2)" using i by (simp add: commitTasks_def)
  from rollback_all [OF c1, of w "m_runningTasks ?tx1"]
  have f: "m_isCancelled ?tx2" "committed (m_registry ?tx2) = committed (m_registry tx)"
    "trace ?tx2 = trace tx @ map TaskRollback (m_runningTasks tx)"
    by simp_all
  have "runTasks w tx = (True, finish ?tx2)"
    using c f(1) by (simp add: runTasks_def Let_def)
  then show ?thesis using f by (simp add: finish_def log_event_def)
qed

lemma quiet_runTasks:
  assumes "m_isCancelled tx"
  shows "quiet tx (snd (runTasks w tx))"
proof (cases "ThreadPool_idle tx")
  case True
  from runTasks_cancelled_idle [OF assms True, of w] show ?thesis
    by (intro quietI [where new = "map TaskRollback (m_runningTasks tx) @ [OnFinish, CleanupHandler]"])
      (simp_all add: list_all_iff)
next
  case False
  let ?tx1 = "if m_nextQueue tx \<noteq> []
                 then tx\<lparr>m_taskQueues := m_taskQueues tx @ [m_nextQueue tx], m_nextQueue := []\<rparr>
                 else tx"
  have "\<not> ThreadPool_idle ?tx1" using False by (simp add: ThreadPool_idle_def)
  then have "runTasks w tx = (False, ?tx1)"
    by (simp add: runTasks_def Let_def commitTasks_busy)
  then show ?thesis using assms by (simp add: quiet_def)
qed

lemma quiet_download_finished:
  assumes "m_isCancelled tx"
  shows "quiet tx (snd (download_finished w r cb saved tx))"
proof -
  let ?tx1 = "if \<not> saved then addError (FS_lastError w, join (pathFor w (remote_name r))) tx else tx"
  have a: "quiet tx ?tx1" using assms by (simp add: quiet_def addError_def)
  have c: "m_isCancelled ?tx1" using assms by (simp add: addError_def)
  have "quiet tx (snd (load_index w r cb ?tx1))"
    by (rule quiet_trans [OF a]) (rule quiet_load_index [OF c])
  with a show ?thesis by (simp add: download_finished_def Let_def)
qed

lemma quiet_thread_finished:
  assumes "m_isCancelled tx"
  shows "quiet tx (snd (thread_finished w i st saved err tx))"
proof (cases "length (m_threadPool tx) \<le> i")
  case True
  then show ?thesis using assms by (simp add: thread_finished_def quiet_refl)
next
  case False
  let ?r = "case m_threadPool tx ! i of
                 IndexDownload r cb \<Rightarrow> download_finished w r cb saved tx
               | TaskJob p \<Rightarrow> (None, tx)"
  obtain e tx1 where r: "?r = (e, tx1)" by (cases ?r) auto
  have q1: "quiet tx tx1"
  proof (cases "m_threadPool tx ! i")
    case (IndexDownload rm cb)
    with r quiet_download_finished [OF assms, of w rm cb saved] show ?thesis by simp
  next
    case (TaskJob p)
    with r assms show ?thesis by (simp add: quiet_refl)
  qed
  show ?thesis
  proof (cases e)
    case (Some x)
    with r False q1 show ?thesis by (simp add: thread_finished_def)
  next
    case None
    let ?tx2 = "if st = Failure then addError err tx1 else tx1"
    let ?tx3 = "log_event (ThreadDone (m_threadPool tx ! i) st)
                         (?tx2\<lparr>m_threadPool :=
                            take i (m_threadPool ?tx2) @ drop (Suc i) (m_threadPool ?tx2)\<rparr>)"
    from q1 have c1: "m_isCancelled tx1" by (rule quietE)
    have q3: "quiet tx1 ?tx3"
      by (rule quietI [where new = "[ThreadDone (m_threadPool tx ! i) st]"])
        (use c1 in \<open>simp_all add: log_event_def addError_def\<close>)
    have q13: "quiet tx ?tx3" by (rule quiet_trans [OF q1 q3])
    from q3 have c3: "m_isCancelled ?tx3" by (rule quietE)
    have q4: "quiet tx (snd (runTasks w ?tx3))"
      by (rule quiet_trans [OF q13]) (rule quiet_runTasks [OF c3])
    have "snd (thread_finished w i st saved err tx)
        = (if ThreadPool_idle ?tx3 then snd (runTasks w ?tx3) else ?tx3)"
      using False r None by (simp add: thread_finished_def Let_def)
    with q13 q4 show ?thesis by simp
  qed
qed

lemma quiet_call:
  assumes "m_isCancelled tx"
  shows "quiet tx (snd (call w c tx))"
proof (cases c)
  case Abort
  then show ?thesis by (simp add: quiet_onAbort)
next
  case (Synchronize r force)
  then show ?thesis using assms by (simp add: quiet_synchronize)
next
  case (FetchIndex r stale)
  then show ?thesis using assms by (simp add: quiet_fetchIndex)
next
  case (Install pkg ver pin reader)
  then show ?thesis using assms by (simp add: quiet_def install_def push_task_def)
next
  case (SetPinned e p)
  then show ?thesis using assms by (simp add: quiet_def setPinned_def push_task_def)
next
  case (Uninstall e)
  then show ?thesis using assms by (simp add: quiet_def uninstall_def push_task_def)
next
  case (RegisterFile t)
  then show ?thesis using assms by (simp add: quiet_def registerFile_def)
next
  case (Inhibit r)
  then show ?thesis using assms by (simp add: quiet_def inhibit_def)
next
  case RunTasks
  then show ?thesis using assms by (simp add: quiet_runTasks)
next
  case (ThreadFinished i st saved err)
  then show ?thesis using assms by (simp add: quiet_thread_finished)
qed

lemma quiet_calls:
  assumes "m_isCancelled tx"
  shows "quiet tx (snd (calls cs tx))"
  using assms
proof (induction cs arbitrary: tx)
  case Nil
  then show ?case by (simp add: quiet_refl)
next
  case (Cons wc cs)
  obtain w c where wc: "wc = (w, c)" by (cases wc) auto
  obtain e tx1 where r: "call w c tx = (e, tx1)" by (cases "call w c tx") auto
  from quiet_call [OF Cons.prems, of w c] r have q1: "quiet tx tx1" by simp
  show ?case
  proof (cases e)
    case (Some x)
    with wc r q1 show ?thesis by simp
  next
    case None
    from q1 have "m_isCancelled tx1" by (rule quietE)
    then have "quiet tx1 (snd (calls cs tx1))" by (rule Cons.IH)
    with q1 have "quiet tx (snd (calls cs tx1))" by (rule quiet_trans)
    with wc r None show ?thesis by simp
  qed
qed

text \<open>
  Claim C1. The handler of an abort sets the cancellation flag and clears the
  queue of host registrations. From then on, whatever calls the transaction
  receives (synchronizations, installs, pins, uninstalls, registrations,
  further aborts, tasks of the pool that finish, \<^verbatim>\<open>runTasks\<close>), in whatever
  worlds: the flag stays set, the committed content of the registry stays
  what it was, and the log gets no commit of the registry, no commit of a
  task and no call of the host. When the pool is idle, \<^verbatim>\<open>runTasks\<close> on the
  cancelled transaction rolls every running task back, in order, calls the
  handlers of the owner and returns true.
\<close>

theorem cancelled_never_commits:
  "m_isCancelled (onAbort tx) \<and> m_regQueue (onAbort tx) = []
   \<and> quiet tx (snd (calls cs (onAbort tx)))
   \<and> (ThreadPool_idle tx
      \<longrightarrow> fst (runTasks w (onAbort tx)) = True
        \<and> trace (snd (runTasks w (onAbort tx)))
            = trace tx @ map TaskRollback (m_runningTasks tx) @ [OnFinish, CleanupHandler]
        \<and> m_runningTasks (snd (runTasks w (onAbort tx))) = [])"
proof -
  have a: "m_isCancelled (onAbort tx)" "m_regQueue (onAbort tx) = []"
    by (simp_all add: onAbort_def)
  have "quiet (onAbort tx) (snd (calls cs (onAbort tx)))"
    using a(1) by (rule quiet_calls)
  with quiet_onAbort have q: "quiet tx (snd (calls cs (onAbort tx)))"
    by (rule quiet_trans)
  have r: "ThreadPool_idle tx
      \<longrightarrow> fst (runTasks w (onAbort tx)) = True
        \<and> trace (snd (runTasks w (onAbort tx)))
            = trace tx @ map TaskRollback (m_runningTasks tx) @ [OnFinish, CleanupHandler]
        \<and> m_runningTasks (snd (runTasks w (onAbort tx))) = []"
  proof
    assume "ThreadPool_idle tx"
    then have i: "ThreadPool_idle (onAbort tx)" by (simp add: ThreadPool_idle_def onAbort_def)
    from runTasks_cancelled_idle [OF a(1) i, of w]
    show "fst (runTasks w (onAbort tx)) = True
        \<and> trace (snd (runTasks w (onAbort tx)))
            = trace tx @ map TaskRollback (m_runningTasks tx) @ [OnFinish, CleanupHandler]
        \<and> m_runningTasks (snd (runTasks w (onAbort tx))) = []"
      by (simp add: onAbort_def)
  qed
  from a q r show ?thesis by blast
qed

theorem cancelled_never_commits_witness:
  "quiet running_tx
     (snd (calls [(busy_env, ThreadFinished 0 Aborted True ([], [])), (busy_env, RunTasks)]
        (onAbort running_tx)))
   \<and> trace (snd (calls [(busy_env, ThreadFinished 0 Aborted True ([], [])), (busy_env, RunTasks)]
        (onAbort running_tx)))
       = trace running_tx @ [ThreadDone (TaskJob [''Scripts'', ''a.lua'']) Aborted,
           TaskRollback demo_task, OnFinish, CleanupHandler, OnFinish, CleanupHandler]
   \<and> committed (m_registry (snd (calls
        [(busy_env, ThreadFinished 0 Aborted True ([], [])), (busy_env, RunTasks)]
        (onAbort running_tx)))) = [demo_entry]
   \<and> ThreadPool_idle idle_tx
   \<and> trace (snd (runTasks busy_env (onAbort idle_tx)))
       = trace idle_tx @ [TaskRollback demo_task, OnFinish, CleanupHandler]"
proof -
  let ?cs = "[(busy_env, ThreadFinished 0 Aborted True ([], [])), (busy_env, RunTasks)]"
  have a: "quiet running_tx (snd (calls ?cs (onAbort running_tx)))"
    using cancelled_never_commits [of running_tx ?cs] by simp
  have b: "trace (snd (calls ?cs (onAbort running_tx)))
       = trace running_tx @ [ThreadDone (TaskJob [''Scripts'', ''a.lua'']) Aborted,
           TaskRollback demo_task, OnFinish, CleanupHandler, OnFinish, CleanupHandler]"
    by code_simp
  have c: "committed (m_registry running_tx) = [demo_entry]" by code_simp
  have d: "committed (m_registry (snd (calls ?cs (onAbort running_tx)))) = [demo_entry]"
    using a c by (simp add: quiet_def)
  have i: "ThreadPool_idle idle_tx" by code_simp
  have r: "m_runningTasks idle_tx = [demo_task]" by code_simp
  have e: "trace (snd (runTasks busy_env (onAbort idle_tx)))
       = trace idle_tx @ [TaskRollback demo_task, OnFinish, CleanupHandler]"
    using cancelled_never_commits [of idle_tx "[]" busy_env] i r by simp
  from a b d i e show ?thesis by simp
qed

section \<open>Properties of the import of an archive\<close>

lemma import_lines_step:
  "fst (import_line a archive st line) = None
    \<Longrightarrow> import_lines a archive st (line # rest)
        = import_lines a archive (snd (import_line a archive st line)) rest"
  by (cases "import_line a archive st line") simp

lemma caught_no_reapack_error: "fst (caught archive r) \<noteq> Some (ReapackError msg)"
  by (cases r) (auto simp: caught_def split: option.splits error.splits)

lemma import_line_no_reapack_error:
  "fst (import_line a archive st line) \<noteq> Some (ReapackError msg)"
  by (simp add: import_line_def Let_def caught_no_reapack_error)

lemma import_lines_no_reapack_error:
  "fst (import_lines a archive st ls) \<noteq> Some (ReapackError msg)"
proof (induction ls arbitrary: st)
  case Nil
  show ?case by simp
next
  case (Cons l ls)
  obtain e st1 where r: "import_line a archive st l = (e, st1)"
    by (cases "import_line a archive st l") auto
  show ?case
  proof (cases e)
    case None
    with r Cons.IH [of st1] show ?thesis by simp
  next
    case (Some x)
    with r import_line_no_reapack_error [of a archive st l msg] show ?thesis by simp
  qed
qed

lemma importRemote_failed:
  assumes "fst (importRemote a data st) = Some e"
  shows "m_lastIndex (snd (importRemote a data st)) = None"
    and "m_tx (snd (importRemote a data st)) = m_tx st"
  using assms
  by (auto simp: importRemote_def Let_def split: sum.splits if_splits option.splits)

lemma import_repo_line_failed:
  assumes "5 < length repo" and "hd repo = CHR ''R''"
    and "fst (importRemote a (drop 5 repo) st) = Some (ReapackError what)"
  shows "import_line a archive st repo
    = (None, (snd (importRemote a (drop 5 repo) st))\<lparr>m_tx := addError (what, archive) (m_tx st)\<rparr>)"
proof -
  obtain st1 where r: "importRemote a (drop 5 repo) st = (Some (ReapackError what), st1)"
    using assms(3) by (cases "importRemote a (drop 5 repo) st") auto
  from importRemote_failed(2) [OF assms(3)] r have "m_tx st1 = m_tx st" by simp
  with r assms(1,2) show ?thesis by (simp add: import_line_def Let_def caught_def)
qed

lemma import_package_unloaded:
  "m_lastIndex st = None \<Longrightarrow> hd l = CHR ''P'' \<Longrightarrow> import_line a archive st l = (None, st)"
  by (simp add: import_line_def importPackage_def caught_def Let_def)

lemma import_packages_unloaded:
  "m_lastIndex st = None \<Longrightarrow> \<forall>l\<in>set packs. hd l = CHR ''P''
    \<Longrightarrow> import_lines a archive st (packs @ rest) = import_lines a archive st rest"
  by (induction packs) (simp_all add: import_package_unloaded)

lemma Archive_import_unopened:
  "archive_open a = Some what \<Longrightarrow> Archive_import a archive remotes created = Inl (ReapackError what)"
  by (simp add: Archive_import_def)

lemma Archive_import_no_toc:
  "archive_open a = None \<Longrightarrow> fst (toc a) \<noteq> 0
    \<Longrightarrow> Archive_import a archive remotes created
        = Inl (ReapackError
                (''Cannot locate the table of contents ('' @ show_int (fst (toc a)) @ '')''))"
  by (cases "toc a") (simp add: Archive_import_def)

text \<open>
  Claim C6, as the code has it. A line of the table of contents that is
  longer than five characters and begins with \<^verbatim>\<open>P\<close>, met while an index is
  loaded, is handled so: when the index has no such category and package, or
  the package no such version, or the lookup of the version throws, one
  error is added to the receipt of the transaction and nothing else changes;
  otherwise an install of the version is queued. No exception leaves the
  line, and the import goes on with the remaining lines. When the import of
  a repository line fails with a \<^verbatim>\<open>reapack_error\<close>, that error is added to the
  receipt once, no index is loaded any more, and the package lines that
  follow the repository line are skipped with nothing more recorded. No
  \<^verbatim>\<open>reapack_error\<close> leaves the replay of the lines, whatever they are. The
  import as a whole throws when the archive cannot be opened, and when the
  archive is open and the table of contents cannot be located.
\<close>

theorem import_package_line:
  assumes "5 < length line" and "hd line = CHR ''P''"
    and "read_package_fields (junk_pinned a) (drop 5 line) = (c, p, v, pin)"
  shows "(m_lastIndex st = Some ri \<and> Index_find ri c p = None
      \<longrightarrow> import_line a archive st line
          = (None, st\<lparr>m_tx := addError (not_found_message ri c p v, archive) (m_tx st)\<rparr>))
   \<and> (m_lastIndex st = Some ri \<and> Index_find ri c p = Some pkg \<and> findVersion a pkg v = Inr None
      \<longrightarrow> import_line a archive st line
          = (None, st\<lparr>m_tx := addError (not_found_message ri c p v, archive) (m_tx st)\<rparr>))
   \<and> (m_lastIndex st = Some ri \<and> Index_find ri c p = Some pkg \<and> findVersion a pkg v = Inl what
      \<longrightarrow> import_line a archive st line
          = (None, st\<lparr>m_tx := addError (what, archive) (m_tx st)\<rparr>))
   \<and> (m_lastIndex st = Some ri \<and> Index_find ri c p = Some pkg
        \<and> findVersion a pkg v = Inr (Some ver)
      \<longrightarrow> import_line a archive st line
          = (None, st\<lparr>m_tx := install pkg ver pin True (m_tx st)\<rparr>))
   \<and> fst (import_line a archive st line) = None
   \<and> import_lines a archive st (line # rest)
       = import_lines a archive (snd (import_line a archive st line)) rest
   \<and> (5 < length repo \<and> hd repo = CHR ''R''
        \<and> fst (importRemote a (drop 5 repo) st) = Some (ReapackError what)
        \<and> (\<forall>l\<in>set packs. hd l = CHR ''P'')
      \<longrightarrow> m_lastIndex (snd (importRemote a (drop 5 repo) st)) = None
        \<and> import_line a archive st repo
          = (None, (snd (importRemote a (drop 5 repo) st))
                     \<lparr>m_tx := addError (what, archive) (m_tx st)\<rparr>)
        \<and> import_lines a archive st (repo # line # packs @ rest)
          = import_lines a archive
              ((snd (importRemote a (drop 5 repo) st))
                 \<lparr>m_tx := addError (what, archive) (m_tx st)\<rparr>) rest)
   \<and> fst (import_lines a archive st ls) \<noteq> Some (ReapackError msg)
   \<and> (archive_open a = Some msg
      \<longrightarrow> Archive_import a archive remotes created = Inl (ReapackError msg))
   \<and> (archive_open a = None \<and> fst (toc a) \<noteq> 0
      \<longrightarrow> Archive_import a archive remotes created
          = Inl (ReapackError
                  (''Cannot locate the table of contents ('' @ show_int (fst (toc a)) @ '')'')))"
proof -
  have l: "import_line a archive st line = caught archive (importPackage a (drop 5 line) st)"
    using assms(1,2) by (simp add: import_line_def Let_def)
  have n: "fst (import_line a archive st line) = None"
    unfolding l using assms(3)
    by (simp add: caught_def importPackage_def split: option.splits sum.splits)
  have i: "(m_lastIndex st = Some ri \<and> Index_find ri c p = None
      \<longrightarrow> import_line a archive st line
          = (None, st\<lparr>m_tx := addError (not_found_message ri c p v, archive) (m_tx st)\<rparr>))
   \<and> (m_lastIndex st = Some ri \<and> Index_find ri c p = Some pkg \<and> findVersion a pkg v = Inr None
      \<longrightarrow> import_line a archive st line
          = (None, st\<lparr>m_tx := addError (not_found_message ri c p v, archive) (m_tx st)\<rparr>))
   \<and> (m_lastIndex st = Some ri \<and> Index_find ri c p = Some pkg \<and> findVersion a pkg v = Inl what
      \<longrightarrow> import_line a archive st line
          = (None, st\<lparr>m_tx := addError (what, archive) (m_tx st)\<rparr>))
   \<and> (m_lastIndex st = Some ri \<and> Index_find ri c p = Some pkg
        \<and> findVersion a pkg v = Inr (Some ver)
      \<longrightarrow> import_line a archive st line
          = (None, st\<lparr>m_tx := install pkg ver pin True (m_tx st)\<rparr>))"
    unfolding l using assms(3) by (simp add: caught_def importPackage_def)
  have r: "5 < length repo \<and> hd repo = CHR ''R''
        \<and> fst (importRemote a (drop 5 repo) st) = Some (ReapackError what)
        \<and> (\<forall>l\<in>set packs. hd l = CHR ''P'')
      \<longrightarrow> m_lastIndex (snd (importRemote a (drop 5 repo) st)) = None
        \<and> import_line a archive st repo
          = (None, (snd (importRemote a (drop 5 repo) st))
                     \<lparr>m_tx := addError (what, archive) (m_tx st)\<rparr>)
        \<and> import_lines a archive st (repo # line # packs @ rest)
          = import_lines a archive
              ((snd (importRemote a (drop 5 repo) st))
                 \<lparr>m_tx := addError (what, archive) (m_tx st)\<rparr>) rest"
  proof (intro impI, elim conjE)
    let ?st1 = "(snd (importRemote a (drop 5 repo) st))
                  \<lparr>m_tx := addError (what, archive) (m_tx st)\<rparr>"
    assume len: "5 < length repo" and hd: "hd repo = CHR ''R''"
      and f: "fst (importRemote a (drop 5 repo) st) = Some (ReapackError what)"
      and ps: "\<forall>l\<in>set packs. hd l = CHR ''P''"
    have u: "m_lastIndex (snd (importRemote a (drop 5 repo) st)) = None"
      using importRemote_failed(1) [OF f] .
    then have u1: "m_lastIndex ?st1 = None" by simp
    have rl: "import_line a archive st repo = (None, ?st1)"
      using import_repo_line_failed [OF len hd f] .
    from ps assms(2) have "\<forall>l\<in>set (line # packs). hd l = CHR ''P''" by simp
    from import_packages_unloaded [OF u1 this, of a archive rest]
    have "import_lines a archive ?st1 (line # packs @ rest) = import_lines a archive ?st1 rest"
      by simp
    with rl have "import_lines a archive st (repo # line # packs @ rest)
        = import_lines a archive ?st1 rest" by simp
    with u rl show "m_lastIndex (snd (importRemote a (drop 5 repo) st)) = None
        \<and> import_line a archive st repo = (None, ?st1)
        \<and> import_lines a archive st (repo # line # packs @ rest)
          = import_lines a archive ?st1 rest" by simp
  qed
  have t: "archive_open a = None \<and> fst (toc a) \<noteq> 0
      \<longrightarrow> Archive_import a archive remotes created
          = Inl (ReapackError
                  (''Cannot locate the table of contents ('' @ show_int (fst (toc a)) @ '')''))"
    using Archive_import_no_toc by blast
  have o: "archive_open a = Some msg
      \<longrightarrow> Archive_import a archive remotes created = Inl (ReapackError msg)"
    using Archive_import_unopened by blast
  from i n import_lines_step [OF n] r import_lines_no_reapack_error [of a archive st ls msg] o t
  show ?thesis by blast
qed

text \<open>The instances: with the index of \<^verbatim>\<open>repo\<close> loaded, a package line for a
  package that the index does not have, one for a version that the package
  does not have, and one for a version that it has; a repository line whose
  index cannot be extracted, followed by two package lines; an archive that
  cannot be opened; and an archive without a table of contents.\<close>

theorem import_package_line_witness:
  "import_line demo_archive ''backup.zip'' demo_state ''PACK \"Tools\" \"b.lua\" \"2.0\" 1''
     = (None, demo_state\<lparr>m_tx := addError
          (not_found_message demo_index ''Tools'' ''b.lua'' ''2.0'', ''backup.zip'') demo_tx\<rparr>)
   \<and> import_line demo_archive ''backup.zip'' demo_state ''PACK \"Tools\" \"a.lua\" \"3.0\" 1''
     = (None, demo_state\<lparr>m_tx := addError
          (not_found_message demo_index ''Tools'' ''a.lua'' ''3.0'', ''backup.zip'') demo_tx\<rparr>)
   \<and> import_line demo_archive ''backup.zip'' demo_state ''PACK \"Tools\" \"a.lua\" \"2.0\" 1''
     = (None, demo_state\<lparr>m_tx := install demo_pkg demo_v2 True True demo_tx\<rparr>)
   \<and> import_lines failing_archive ''backup.zip'' demo_state
        [''REPO broken'', ''PACK \"Tools\" \"a.lua\" \"2.0\" 1'',
         ''PACK \"Tools\" \"b.lua\" \"2.0\" 1'']
     = (None, demo_state\<lparr>m_lastIndex := None, m_tx := addError
          (''Failed to extract index of broken (-100)'', ''backup.zip'') demo_tx\<rparr>)
   \<and> Archive_import (demo_archive\<lparr>archive_open := Some ''No such file or directory''\<rparr>)
        ''backup.zip'' [] (Some demo_tx)
     = Inl (ReapackError ''No such file or directory'')
   \<and> Archive_import (demo_archive\<lparr>toc := (- 100, [])\<rparr>) ''backup.zip'' [] (Some demo_tx)
     = Inl (ReapackError ''Cannot locate the table of contents (-100)'')"
proof -
  let ?found = "''PACK \"Tools\" \"a.lua\" \"2.0\" 1''"
  let ?nopkg = "''PACK \"Tools\" \"b.lua\" \"2.0\" 1''"
  let ?nover = "''PACK \"Tools\" \"a.lua\" \"3.0\" 1''"
  let ?notoc = "demo_archive\<lparr>toc := (- 100, [])\<rparr>"
  let ?closed = "demo_archive\<lparr>archive_open := Some ''No such file or directory''\<rparr>"
  let ?what = "''Failed to extract index of broken (-100)''"
  let ?st1 = "demo_state\<lparr>m_lastIndex := None,
                 m_tx := addError (?what, ''backup.zip'') demo_tx\<rparr>"
  have len: "5 < length ?found" "5 < length ?nopkg" "5 < length ?nover" by simp_all
  have hd: "hd ?found = CHR ''P''" "hd ?nopkg = CHR ''P''" "hd ?nover = CHR ''P''" by simp_all
  have f1: "read_package_fields (junk_pinned demo_archive) (drop 5 ?found)
      = (''Tools'', ''a.lua'', ''2.0'', True)" by code_simp
  have f2: "read_package_fields (junk_pinned demo_archive) (drop 5 ?nopkg)
      = (''Tools'', ''b.lua'', ''2.0'', True)" by code_simp
  have f3: "read_package_fields (junk_pinned demo_archive) (drop 5 ?nover)
      = (''Tools'', ''a.lua'', ''3.0'', True)" by code_simp
  have f4: "read_package_fields (junk_pinned ?notoc) (drop 5 ?found)
      = (''Tools'', ''a.lua'', ''2.0'', True)" by code_simp
  have f5: "read_package_fields (junk_pinned ?closed) (drop 5 ?found)
      = (''Tools'', ''a.lua'', ''2.0'', True)" by code_simp
  have f6: "read_package_fields (junk_pinned failing_archive) (drop 5 ?found)
      = (''Tools'', ''a.lua'', ''2.0'', True)" by code_simp
  have i1: "m_lastIndex demo_state = Some demo_index" by (simp add: demo_state_def)
  have tx: "m_tx demo_state = demo_tx" by (simp add: demo_state_def)
  have p1: "Index_find demo_index ''Tools'' ''a.lua'' = Some demo_pkg" by code_simp
  have p2: "Index_find demo_index ''Tools'' ''b.lua'' = None" by code_simp
  have v2: "findVersion demo_archive demo_pkg ''2.0'' = Inr (Some demo_v2)" by code_simp
  have v3: "findVersion demo_archive demo_pkg ''3.0'' = Inr None" by code_simp
  have o: "archive_open ?notoc = None \<and> fst (toc ?notoc) \<noteq> 0"
    by (simp add: demo_archive_def)
  have s: "show_int (fst (toc ?notoc)) = ''-100''" by code_simp
  have x: "fst (importRemote failing_archive (drop 5 ''REPO broken'') demo_state)
      = Some (ReapackError ?what)" by code_simp
  have x1: "snd (importRemote failing_archive (drop 5 ''REPO broken'') demo_state)
      = demo_state\<lparr>m_lastIndex := None\<rparr>" by code_simp
  have b: "import_line demo_archive ''backup.zip'' demo_state ?nopkg
     = (None, demo_state\<lparr>m_tx := addError
          (not_found_message demo_index ''Tools'' ''b.lua'' ''2.0'', ''backup.zip'') demo_tx\<rparr>)"
    using import_package_line [OF len(2) hd(2) f2, where st = demo_state and ri = demo_index]
      i1 p2 tx by simp
  have c: "import_line demo_archive ''backup.zip'' demo_state ?nover
     = (None, demo_state\<lparr>m_tx := addError
          (not_found_message demo_index ''Tools'' ''a.lua'' ''3.0'', ''backup.zip'') demo_tx\<rparr>)"
    using import_package_line [OF len(3) hd(3) f3, where st = demo_state and ri = demo_index
        and pkg = demo_pkg] i1 p1 v3 tx by simp
  have d: "import_line demo_archive ''backup.zip'' demo_state ?found
     = (None, demo_state\<lparr>m_tx := install demo_pkg demo_v2 True True demo_tx\<rparr>)"
    using import_package_line [OF len(1) hd(1) f1, where st = demo_state and ri = demo_index
        and pkg = demo_pkg and ver = demo_v2] i1 p1 v2 tx by simp
  have r: "import_lines failing_archive ''backup.zip'' demo_state
        [''REPO broken'', ?found, ?nopkg] = (None, ?st1)"
  proof -
    let ?st2 = "(snd (importRemote failing_archive (drop 5 ''REPO broken'') demo_state))
               \<lparr>m_tx := addError (?what, ''backup.zip'') (m_tx demo_state)\<rparr>"
    have h: "5 < length ''REPO broken'' \<and> hd ''REPO broken'' = CHR ''R''
        \<and> fst (importRemote failing_archive (drop 5 ''REPO broken'') demo_state)
            = Some (ReapackError ?what)
        \<and> (\<forall>l\<in>set [?nopkg]. hd l = CHR ''P'')"
      using x by simp
    from import_package_line [OF len(1) hd(1) f6, where st = demo_state
        and repo = "''REPO broken''" and what = ?what and packs = "[?nopkg]" and rest = "[]"
        and archive = "''backup.zip''"] h
    have "import_lines failing_archive ''backup.zip'' demo_state
            (''REPO broken'' # ?found # [?nopkg] @ [])
        = import_lines failing_archive ''backup.zip'' ?st2 []"
      by blast
    then have e1: "import_lines failing_archive ''backup.zip'' demo_state
            [''REPO broken'', ?found, ?nopkg]
        = import_lines failing_archive ''backup.zip'' ?st2 []"
      by (simp only: append.simps)
    have e2: "import_lines failing_archive ''backup.zip'' ?st2 [] = (None, ?st1)"
      using x1 tx by simp
    from e1 e2 show ?thesis by (rule trans)
  qed
  have u: "Archive_import ?closed ''backup.zip'' [] (Some demo_tx)
     = Inl (ReapackError ''No such file or directory'')"
    using import_package_line [OF len(1) hd(1) f5, where remotes = "[]"
        and created = "Some demo_tx" and archive = "''backup.zip''"
        and msg = "''No such file or directory''"] by simp
  have e: "Archive_import ?notoc ''backup.zip'' [] (Some demo_tx)
     = Inl (ReapackError ''Cannot locate the table of contents (-100)'')"
    using import_package_line [OF len(1) hd(1) f4, where remotes = "[]"
        and created = "Some demo_tx" and archive = "''backup.zip''"] o s by simp
  from b c d r u e show ?thesis by blast
qed

text \<open>
  The claim as the spec words it fails after a repository line whose import
  failed. The first repository line of the archive loads the index of
  \<^verbatim>\<open>repo\<close>, the last index that the import has; the second repository line
  fails and its failure is recorded. The package line after it names a
  package that the index of \<^verbatim>\<open>repo\<close> does not have, and no error is recorded
  for it: the receipt after the three lines is the receipt after the first
  two, and holds the failure of the repository line alone.
\<close>

theorem pack_after_failed_repo_is_silent:
  "getlines [] (snd (toc failing_archive))
      = [''REPO repo'', ''REPO broken'', ''PACK \"Tools\" \"b.lua\" \"1.0\" 0'']
   \<and> m_lastIndex (snd (import_lines failing_archive ''backup.zip'' empty_state [''REPO repo'']))
      = Some demo_index
   \<and> Index_find demo_index ''Tools'' ''b.lua'' = None
   \<and> m_receipt (m_tx (snd (import_lines failing_archive ''backup.zip'' empty_state
        [''REPO repo'', ''REPO broken''])))
      = [(''Failed to extract index of broken (-100)'', ''backup.zip'')]
   \<and> m_receipt (m_tx (snd (import_lines failing_archive ''backup.zip'' empty_state
        (getlines [] (snd (toc failing_archive))))))
      = [(''Failed to extract index of broken (-100)'', ''backup.zip'')]
   \<and> (case Archive_import failing_archive ''backup.zip'' [] (Some demo_tx) of
        Inr (Some st) \<Rightarrow>
          m_receipt (m_tx st) = [(''Failed to extract index of broken (-100)'', ''backup.zip'')]
      | _ \<Rightarrow> False)"
  by code_simp

text \<open>
  A package line that no repository line precedes is skipped in the same
  way, although no failure was recorded before it: the import of an archive
  whose table of contents is that one line leaves the state as it was, with
  no error in the receipt. The comment in \<^verbatim>\<open>importPackage\<close> takes the failure
  to have been reported already when no index is loaded.
\<close>

lemma pack_before_repo_is_silent:
  "getlines [] (snd (toc demo_archive)) = [''PACK \"Tools\" \"a.lua\" \"1.0\" 0'']
   \<and> import_lines demo_archive ''backup.zip'' empty_state
        (getlines [] (snd (toc demo_archive)))
      = (None, empty_state)
   \<and> m_receipt demo_tx = []
   \<and> (case Archive_import demo_archive ''backup.zip'' [] (Some demo_tx) of
        Inr (Some st) \<Rightarrow> m_receipt (m_tx st) = [] \<and> m_nextQueue (m_tx st) = []
      | _ \<Rightarrow> False)"
  by code_simp

lemma import_line_short: "length line \<le> 5 \<Longrightarrow> import_line a archive st line = (None, st)"
  by (simp add: import_line_def)

lemma import_lines_skip_short:
  "import_lines a archive st ls = import_lines a archive st (filter (\<lambda>l. 5 < length l) ls)"
proof (induction ls arbitrary: st)
  case Nil
  show ?case by simp
next
  case (Cons l ls)
  show ?case
  proof (cases "5 < length l")
    case True
    show ?thesis
    proof (cases "import_line a archive st l")
      case (Pair e st1)
      then show ?thesis using True Cons.IH [of st1] by (cases e) simp_all
    qed
  next
    case False
    then have "import_line a archive st l = (None, st)" by (simp add: import_line_short)
    with False Cons.IH [of st] show ?thesis by simp
  qed
qed

lemma import_line_unknown:
  "5 < length line \<Longrightarrow> hd line \<noteq> CHR ''R'' \<Longrightarrow> hd line \<noteq> CHR ''P''
    \<Longrightarrow> import_line a archive st line
        = (None, st\<lparr>m_tx := addError (unknown_token line, archive) (m_tx st)\<rparr>)"
  by (simp add: import_line_def caught_def Let_def)

text \<open>
  Claim C10. A line of the table of contents of five characters or fewer is
  skipped: the state stays as it is and no error is recorded, so that the
  replay of a table of contents is the replay of its lines that are longer. Of a longer line only the first character
  chooses the directive: \<^verbatim>\<open>R\<close> hands the line without its first five characters
  to \<^verbatim>\<open>importRemote\<close>, \<^verbatim>\<open>P\<close> to \<^verbatim>\<open>importPackage\<close>, whatever the other four
  characters are. Any other first character adds the error
  \<^verbatim>\<open>Unknown token\<close>, with the first four characters of the line, to the
  receipt, changes nothing else, and the import goes on with the next line.
\<close>

theorem import_line_directive:
  "import_lines a archive st ls = import_lines a archive st (filter (\<lambda>l. 5 < length l) ls)
   \<and> (length line \<le> 5 \<longrightarrow> import_line a archive st line = (None, st))
   \<and> (5 < length line \<and> hd line = CHR ''R''
      \<longrightarrow> import_line a archive st line = caught archive (importRemote a (drop 5 line) st))
   \<and> (5 < length line \<and> hd line = CHR ''P''
      \<longrightarrow> import_line a archive st line = caught archive (importPackage a (drop 5 line) st))
   \<and> (5 < length line \<and> hd line \<noteq> CHR ''R'' \<and> hd line \<noteq> CHR ''P''
      \<longrightarrow> import_line a archive st line
          = (None, st\<lparr>m_tx := addError (unknown_token line, archive) (m_tx st)\<rparr>)
        \<and> import_lines a archive st (line # rest)
          = import_lines a archive
              (st\<lparr>m_tx := addError (unknown_token line, archive) (m_tx st)\<rparr>) rest)"
proof -
  have r: "5 < length line \<and> hd line = CHR ''R''
      \<longrightarrow> import_line a archive st line = caught archive (importRemote a (drop 5 line) st)"
    by (simp add: import_line_def Let_def)
  have p: "5 < length line \<and> hd line = CHR ''P''
      \<longrightarrow> import_line a archive st line = caught archive (importPackage a (drop 5 line) st)"
    by (simp add: import_line_def Let_def)
  have u: "5 < length line \<and> hd line \<noteq> CHR ''R'' \<and> hd line \<noteq> CHR ''P''
      \<longrightarrow> import_line a archive st line
          = (None, st\<lparr>m_tx := addError (unknown_token line, archive) (m_tx st)\<rparr>)
        \<and> import_lines a archive st (line # rest)
          = import_lines a archive
              (st\<lparr>m_tx := addError (unknown_token line, archive) (m_tx st)\<rparr>) rest"
    by (simp add: import_line_unknown)
  show ?thesis
    using import_lines_skip_short [of a archive st ls] import_line_short [of line a archive st]
      r p u
    by blast
qed

theorem import_line_directive_witness:
  "import_line demo_archive ''backup.zip'' demo_state ''PACK '' = (None, demo_state)
   \<and> import_line demo_archive ''backup.zip'' demo_state ''Rxyz:repo''
       = import_line demo_archive ''backup.zip'' demo_state ''REPO repo''
   \<and> import_line demo_archive ''backup.zip'' demo_state ''Pxyz:\"Tools\" \"a.lua\" \"2.0\" 1''
       = import_line demo_archive ''backup.zip'' demo_state ''PACK \"Tools\" \"a.lua\" \"2.0\" 1''
   \<and> m_receipt (m_tx (snd (import_line demo_archive ''backup.zip'' demo_state ''XYZW hello'')))
       = [(''Unknown token '' @ [CHR 0x27] @ ''XYZW'' @ [CHR 0x27] @ '' (skipping)'',
           ''backup.zip'')]
   \<and> import_lines demo_archive ''backup.zip'' demo_state [''XYZW hello'', ''PACK '']
       = (None, demo_state\<lparr>m_tx := addError
            (''Unknown token '' @ [CHR 0x27] @ ''XYZW'' @ [CHR 0x27] @ '' (skipping)'',
             ''backup.zip'') demo_tx\<rparr>)"
proof -
  let ?e = "(''Unknown token '' @ [CHR 0x27] @ ''XYZW'' @ [CHR 0x27] @ '' (skipping)'',
             ''backup.zip'')"
  let ?st1 = "demo_state\<lparr>m_tx := addError ?e demo_tx\<rparr>"
  have tx: "m_tx demo_state = demo_tx" by (simp add: demo_state_def)
  have r0: "m_receipt demo_tx = []" by code_simp
  have u: "unknown_token ''XYZW hello''
      = ''Unknown token '' @ [CHR 0x27] @ ''XYZW'' @ [CHR 0x27] @ '' (skipping)''"
    by (simp add: unknown_token_def)
  have a: "import_line demo_archive ''backup.zip'' demo_state ''PACK '' = (None, demo_state)"
    using import_line_directive [where line = "''PACK ''" and a = demo_archive
        and archive = "''backup.zip''" and st = demo_state]
    by simp
  have b: "import_line demo_archive ''backup.zip'' demo_state ''Rxyz:repo''
       = import_line demo_archive ''backup.zip'' demo_state ''REPO repo''"
    using import_line_directive [where line = "''Rxyz:repo''" and a = demo_archive
        and archive = "''backup.zip''" and st = demo_state]
      import_line_directive [where line = "''REPO repo''" and a = demo_archive
        and archive = "''backup.zip''" and st = demo_state]
    by simp
  have c: "import_line demo_archive ''backup.zip'' demo_state ''Pxyz:\"Tools\" \"a.lua\" \"2.0\" 1''
       = import_line demo_archive ''backup.zip'' demo_state ''PACK \"Tools\" \"a.lua\" \"2.0\" 1''"
    using import_line_directive [where line = "''Pxyz:\"Tools\" \"a.lua\" \"2.0\" 1''"
        and a = demo_archive and archive = "''backup.zip''" and st = demo_state]
      import_line_directive [where line = "''PACK \"Tools\" \"a.lua\" \"2.0\" 1''"
        and a = demo_archive and archive = "''backup.zip''" and st = demo_state]
    by simp
  have d: "import_line demo_archive ''backup.zip'' demo_state ''XYZW hello'' = (None, ?st1)"
    and d': "import_lines demo_archive ''backup.zip'' demo_state [''XYZW hello'', ''PACK '']
        = import_lines demo_archive ''backup.zip'' ?st1 [''PACK '']"
    using import_line_directive [where line = "''XYZW hello''" and a = demo_archive
        and archive = "''backup.zip''" and st = demo_state and rest = "[''PACK '']"] u tx
    by simp_all
  have e: "import_lines demo_archive ''backup.zip'' ?st1 [''PACK ''] = (None, ?st1)"
    using import_line_directive [where ls = "[''PACK '']" and a = demo_archive
        and archive = "''backup.zip''" and st = ?st1]
    by simp
  have f: "m_receipt (m_tx (snd (import_line demo_archive ''backup.zip'' demo_state ''XYZW hello'')))
       = [?e]"
    using d r0 by (simp add: addError_def)
  from a b c f d' e show ?thesis by simp
qed

end
